theory Spec2Isabelle
  imports Main "HOL-Library.Sublist" "HOL-Library.AList"
begin

unbundle bit_operations_syntax

section \<open>panctl: the control shell of pantalaimon\<close>

text \<open>
  A shallow embedding of \<^verbatim>\<open>pantalaimon/panctl.py\<close>. Python strings are modelled as
  \<^typ>\<open>string\<close>, Python integers as \<^typ>\<open>int\<close>, exceptions as values of the type
  \<open>exn\<close>, and everything printed as a list of output events tagged with its stream.
\<close>

subsection \<open>Python string primitives\<close>

text \<open>\<^verbatim>\<open>ord(x)\<close>: the code point of a character.\<close>

definition ord :: "char \<Rightarrow> int" where
  "ord x = of_char x"

text \<open>\<^verbatim>\<open>sep.join(parts)\<close>.\<close>

fun str_join :: "string \<Rightarrow> string list \<Rightarrow> string" where
  "str_join sep [] = []"
| "str_join sep [p] = p"
| "str_join sep (p # q # ps) = p @ sep @ str_join sep (q # ps)"

text \<open>\<^verbatim>\<open>a in b\<close> on strings: \<open>a\<close> occurs in \<open>b\<close> as a contiguous run.\<close>

fun starts_with :: "string \<Rightarrow> string \<Rightarrow> bool" where
  "starts_with [] b = True"
| "starts_with (x # a) [] = False"
| "starts_with (x # a) (y # b) = (x = y \<and> starts_with a b)"

fun str_in :: "string \<Rightarrow> string \<Rightarrow> bool" where
  "str_in a [] = (a = [])"
| "str_in a (y # b) = (starts_with a (y # b) \<or> str_in a b)"

subsection \<open>Presentation: key partitioning and colours\<close>

text \<open>
  \<^verbatim>\<open>grouper(iterable, n, fillvalue)\<close> hands \<open>n\<close> references to one iterator to
  \<^verbatim>\<open>zip_longest\<close>: every round draws \<open>n\<close> items from the iterable, filling up with
  \<open>fillvalue\<close> once it is exhausted, and the rounds stop when a round draws nothing.
\<close>

function grouper :: "'a list \<Rightarrow> nat \<Rightarrow> 'a \<Rightarrow> 'a list list" where
  "grouper iterable n fillvalue =
     (if iterable = [] \<or> n = 0 then []
      else (take n iterable @ replicate (n - length iterable) fillvalue)
             # grouper (drop n iterable) n fillvalue)"
  by pat_completeness auto
termination
  by (relation "measure (\<lambda>(iterable, n, fillvalue). length iterable)") auto

declare grouper.simps [simp del]

definition partition_key :: "string \<Rightarrow> string" where
  "partition_key key = str_join '' '' (grouper key 4 CHR '' '')"

text \<open>
  \<^verbatim>\<open>get_color\<close>: the inner \<^verbatim>\<open>djb2\<close> runs over unbounded integers and masks only the
  final value; the palette is indexed with the hash modulo 5.
\<close>

definition djb2 :: "string \<Rightarrow> int" where
  "djb2 string = fold (\<lambda>x hash. (push_bit 5 hash + hash) + ord x) string 5381 AND 0xFFFFFFFF"

definition colors :: "string list" where
  "colors = [''ansiblue'', ''ansigreen'', ''ansired'', ''ansiyellow'', ''ansicyan'',
             ''ansimagenta'']"

definition get_color :: "string \<Rightarrow> string" where
  "get_color string = colors ! nat (djb2 string mod 5)"

subsection \<open>Exceptions and output\<close>

text \<open>
  The exceptions that can travel through the program. \<open>ParseError\<close> is the program's
  own class; the others are Python's, D-Bus's and the XML parser's.
\<close>

datatype exn = ParseError | SystemExit int | IndexError | AttributeError | EOFError
  | KeyboardInterrupt | DBusException | ExpatError

text \<open>
  The messages that \<^verbatim>\<open>argparse\<close> hands to \<^verbatim>\<open>error\<close>, kept structured instead of
  rendered to English text.
\<close>

datatype message =
    InvalidChoice string "string list"
  | RequiredArguments "string list"
  | UnrecognizedArguments "string list"
  | IgnoredExplicitArgument string
  | AmbiguousOption string "string list"

datatype printed =
    Plain string
  | ErrorReport message
  | HelpText
  | Formatted string
  | Prompt

datatype out_event = Stdout printed | Stderr printed

fun on_stderr :: "out_event \<Rightarrow> bool" where
  "on_stderr (Stderr t) = True"
| "on_stderr (Stdout t) = False"

text \<open>
  A computation either returns a value or stops with what it printed on the way and the
  exception it raised.
\<close>

type_synonym 'a result = "(out_event list \<times> exn) + 'a"

subsection \<open>The argument parser\<close>

text \<open>
  \<^verbatim>\<open>PanctlArgParse\<close> is \<^verbatim>\<open>argparse.ArgumentParser\<close> with two overrides:
  \<^verbatim>\<open>print_usage\<close> prints nothing and \<^verbatim>\<open>error\<close> prints the message with
  \<^verbatim>\<open>print\<close> (standard output) and raises \<open>ParseError\<close> instead of exiting.
  The help action is not overridden: it prints the help text to standard output and calls
  \<^verbatim>\<open>exit\<close>, which raises \<open>SystemExit\<close> with status 0.
\<close>

definition error :: "message \<Rightarrow> 'a result" where
  "error message = Inl ([Stdout (ErrorReport message)], ParseError)"

definition help_action :: "'a result" where
  "help_action = Inl ([Stdout HelpText], SystemExit 0)"

text \<open>
  The library itself is not part of the program's source. Its behaviour is modelled here for
  parsers built the way \<^verbatim>\<open>PanctlParser\<close> builds them: prefix character \<open>-\<close>,
  abbreviations allowed, the automatic \<open>-h\<close>/\<open>--help\<close> option as the only option, an
  optional sub-command selector, and sub-parsers of the same class whose arguments are
  positional strings taking one word each. The model follows the library as released with
  Python 3.6 to 3.10, where adding a sub-parser under a name already present replaces the
  earlier one (later releases refuse the second \<^verbatim>\<open>add_parser("verify-device")\<close>).

  The sub-parser table \<^verbatim>\<open>_name_parser_map\<close> is an insertion-ordered dictionary from the
  sub-command name to its parser; a parser is represented by the destinations of its
  positional arguments, in order.
\<close>

type_synonym name_parser_map = "(string \<times> string list) list"

definition add_parser :: "string \<Rightarrow> name_parser_map \<Rightarrow> name_parser_map" where
  "add_parser name m = AList.update name [] m"

definition add_argument :: "string \<Rightarrow> string \<Rightarrow> name_parser_map \<Rightarrow> name_parser_map" where
  "add_argument name dest m = AList.map_entry name (\<lambda>dests. dests @ [dest]) m"

definition option_strings :: "string list" where
  "option_strings = [''-h'', ''--help'']"

text \<open>\<^verbatim>\<open>s.split('=', 1)\<close> when \<open>=\<close> occurs in \<open>s\<close>.\<close>

definition split_eq :: "string \<Rightarrow> (string \<times> string) option" where
  "split_eq s =
     (if CHR ''='' \<in> set s
      then Some (takeWhile (\<lambda>c. c \<noteq> CHR ''='') s, tl (dropWhile (\<lambda>c. c \<noteq> CHR ''='') s))
      else None)"

text \<open>
  \<^verbatim>\<open>_get_option_tuples\<close>: the options a word of at least two characters abbreviates,
  each with the explicit argument glued to it.
\<close>

definition get_option_tuples :: "string \<Rightarrow> (string \<times> string option) list" where
  "get_option_tuples option_string =
     (case option_string of
        c0 # c1 # cs \<Rightarrow>
          if c1 = CHR ''-'' then
            (let (option_prefix, explicit_arg) =
                   (case split_eq option_string of
                      Some (p, e) \<Rightarrow> (p, Some e)
                    | None \<Rightarrow> (option_string, None))
             in concat (map (\<lambda>opt. if starts_with option_prefix opt
                                    then [(opt, explicit_arg)] else []) option_strings))
          else
            concat (map (\<lambda>opt. if opt = [c0, c1] then [(opt, Some cs)]
                                else if starts_with option_string opt then [(opt, None)]
                                else []) option_strings)
      | _ \<Rightarrow> [])"

text \<open>The pattern \<^verbatim>\<open>^-\d+$|^-\d*\.\d+$\<close> of words that look like negative numbers.\<close>

definition is_digit :: "char \<Rightarrow> bool" where
  "is_digit c = (48 \<le> (of_char c :: nat) \<and> (of_char c :: nat) \<le> 57)"

definition negative_number_core :: "string \<Rightarrow> bool" where
  "negative_number_core s =
     (case s of
        [] \<Rightarrow> False
      | c # ds \<Rightarrow> c = CHR ''-'' \<and>
          ((ds \<noteq> [] \<and> list_all is_digit ds) \<or>
           (case dropWhile is_digit ds of
              [] \<Rightarrow> False
            | p # es \<Rightarrow> p = CHR ''.'' \<and> es \<noteq> [] \<and> list_all is_digit es)))"

definition negative_number :: "string \<Rightarrow> bool" where
  "negative_number s =
     (negative_number_core s \<or>
      (s \<noteq> [] \<and> last s = CHR 0x0A \<and> negative_number_core (butlast s)))"

text \<open>
  \<^verbatim>\<open>_parse_optional\<close> decides for one word whether it is a positional argument or an
  option. An option is the help option, written out as its option string and the explicit
  argument attached to the word, or a word that looks like an option but names none.
\<close>

datatype option_tuple = Help string "string option" | NoAction

datatype arg_kind = Positional | Optional option_tuple | Ambiguous "string list"

definition parse_optional :: "string \<Rightarrow> arg_kind" where
  "parse_optional arg_string =
     (if arg_string = [] then Positional
      else if hd arg_string \<noteq> CHR ''-'' then Positional
      else if arg_string \<in> set option_strings then Optional (Help arg_string None)
      else if length arg_string = 1 then Positional
      else
        (case (case split_eq arg_string of
                 Some (option_string, explicit_arg) \<Rightarrow>
                   if option_string \<in> set option_strings
                   then Some (Help option_string (Some explicit_arg)) else None
               | None \<Rightarrow> None) of
           Some t \<Rightarrow> Optional t
         | None \<Rightarrow>
            (case get_option_tuples arg_string of
               [] \<Rightarrow>
                 if negative_number arg_string then Positional
                 else if CHR '' '' \<in> set arg_string then Positional
                 else Optional NoAction
             | [(opt, explicit_arg)] \<Rightarrow> Optional (Help opt explicit_arg)
             | ts \<Rightarrow> Ambiguous (map fst ts))))"

text \<open>
  \<^verbatim>\<open>consume_optional\<close> for the help option. Without an explicit argument the help
  action runs. An explicit argument after the one-letter option \<open>-h\<close> is read as further
  one-letter options; one after \<open>--help\<close> is refused. The empty explicit argument of
  \<open>-h=\<close> is indexed at position 0.
\<close>

fun consume_explicit :: "string \<Rightarrow> string \<Rightarrow> 'a result" where
  "consume_explicit option_string [] =
     (if take 1 (drop 1 option_string) \<noteq> ''-'' then Inl ([], IndexError)
      else error (IgnoredExplicitArgument []))"
| "consume_explicit option_string (c # cs) =
     (if take 1 (drop 1 option_string) \<noteq> ''-'' then
        (if [CHR ''-'', c] \<in> set option_strings then
           (if cs = [] then help_action else consume_explicit [CHR ''-'', c] cs)
         else error (IgnoredExplicitArgument (c # cs)))
      else error (IgnoredExplicitArgument (c # cs)))"

definition consume_optional :: "string \<Rightarrow> string option \<Rightarrow> 'a result" where
  "consume_optional option_string explicit_arg =
     (case explicit_arg of
        None \<Rightarrow> help_action
      | Some e \<Rightarrow> consume_explicit option_string e)"

text \<open>
  A value stored in the namespace: the word itself, or the empty list that a positional
  argument receives when its only word is a second \<open>--\<close>.
\<close>

datatype pyval = Str string | EmptyList

record namespace =
  subcommand :: "string option"
  arguments :: "(string \<times> pyval) list"

text \<open>
  The words after the first \<open>--\<close> are all arguments. Each is given to the next positional
  still open (losing its value when it is itself \<open>--\<close>), the others are left over.
\<close>

fun bind_rest :: "string list \<Rightarrow> string list \<Rightarrow> (string \<times> pyval) list \<Rightarrow> string list
    \<Rightarrow> (string \<times> pyval) list \<times> string list \<times> string list" where
  "bind_rest dests [] vals extras = (vals, dests, extras)"
| "bind_rest [] (a # as) vals extras = bind_rest [] as vals (extras @ [a])"
| "bind_rest (d # ds) (a # as) vals extras =
     bind_rest ds as (vals @ [(d, if a = ''--'' then EmptyList else Str a)]) extras"

text \<open>
  The first \<open>--\<close> joins the positional argument matched just before it; failing that it
  joins the next one together with the word that follows; failing that it is left over
  with everything after it.
\<close>

definition after_dashes :: "string list \<Rightarrow> string list \<Rightarrow> (string \<times> pyval) list \<Rightarrow> string list
    \<Rightarrow> bool \<Rightarrow> (string \<times> pyval) list \<times> string list \<times> string list" where
  "after_dashes dests rest vals extras last_bound =
     (if last_bound then bind_rest dests rest vals extras
      else (case (dests, rest) of
              (d # ds, a # as) \<Rightarrow> bind_rest ds as (vals @ [(d, Str a)]) extras
            | _ \<Rightarrow> (vals, dests, extras @ ''--'' # rest)))"

text \<open>
  The consuming loop of \<^verbatim>\<open>_parse_known_args\<close> for a sub-parser, word by word: a
  positional word goes to the next open positional argument or is left over, an unknown
  option is left over, the help option stops the parse.
\<close>

fun consume :: "string list \<Rightarrow> string list \<Rightarrow> (string \<times> pyval) list \<Rightarrow> string list \<Rightarrow> bool
    \<Rightarrow> ((string \<times> pyval) list \<times> string list \<times> string list) result" where
  "consume dests [] vals extras last_bound = Inr (vals, dests, extras)"
| "consume dests (a # as) vals extras last_bound =
     (if a = ''--'' then Inr (after_dashes dests as vals extras last_bound)
      else (case parse_optional a of
              Positional \<Rightarrow>
                (case dests of
                   [] \<Rightarrow> consume [] as vals (extras @ [a]) False
                 | d # ds \<Rightarrow> consume ds as (vals @ [(d, Str a)]) extras True)
            | Optional NoAction \<Rightarrow> consume dests as vals (extras @ [a]) False
            | Optional (Help opt explicit_arg) \<Rightarrow> consume_optional opt explicit_arg
            | Ambiguous opts \<Rightarrow> error (AmbiguousOption a opts)))"

text \<open>
  \<^verbatim>\<open>parse_known_args\<close> of a sub-parser: all its positional arguments are required.
\<close>

definition sub_parse_known_args :: "string list \<Rightarrow> string list
    \<Rightarrow> ((string \<times> pyval) list \<times> string list) result" where
  "sub_parse_known_args dests arg_strings =
     (case consume dests arg_strings [] [] False of
        Inl stop \<Rightarrow> Inl stop
      | Inr (vals, missing, extras) \<Rightarrow>
          if missing \<noteq> [] then error (RequiredArguments missing)
          else Inr (vals, extras))"

text \<open>
  The sub-command selector takes a first positional word and everything after it: the word
  must be a key of the table, and the rest is parsed by that key's parser.
\<close>

definition invoke :: "name_parser_map \<Rightarrow> string \<Rightarrow> string list \<Rightarrow> string list
    \<Rightarrow> (namespace \<times> string list) result" where
  "invoke m parser_name arg_strings extras =
     (case map_of m parser_name of
        None \<Rightarrow> error (InvalidChoice parser_name (map fst m))
      | Some dests \<Rightarrow>
          (case sub_parse_known_args dests arg_strings of
             Inl stop \<Rightarrow> Inl stop
           | Inr (vals, sub_extras) \<Rightarrow>
               Inr (\<lparr>subcommand = Some parser_name, arguments = vals\<rparr>, extras @ sub_extras)))"

fun parse_known_args :: "name_parser_map \<Rightarrow> string list \<Rightarrow> string list
    \<Rightarrow> (namespace \<times> string list) result" where
  "parse_known_args m [] extras = Inr (\<lparr>subcommand = None, arguments = []\<rparr>, extras)"
| "parse_known_args m (a # as) extras =
     (if a = ''--'' then
        (if as = [] then Inr (\<lparr>subcommand = None, arguments = []\<rparr>, extras @ [a])
         else invoke m a as extras)
      else (case parse_optional a of
              Positional \<Rightarrow> invoke m a as extras
            | Optional NoAction \<Rightarrow> parse_known_args m as (extras @ [a])
            | Optional (Help opt explicit_arg) \<Rightarrow> consume_optional opt explicit_arg
            | Ambiguous opts \<Rightarrow> error (AmbiguousOption a opts)))"

definition parse_args_of :: "name_parser_map \<Rightarrow> string list \<Rightarrow> namespace result" where
  "parse_args_of m argv =
     (case parse_known_args m argv [] of
        Inl stop \<Rightarrow> Inl stop
      | Inr (ns, extras) \<Rightarrow>
          if extras \<noteq> [] then error (UnrecognizedArguments extras) else Inr ns)"

text \<open>\<^verbatim>\<open>PanctlParser.__init__\<close>, call by call.\<close>

definition PanctlParser :: name_parser_map where
  "PanctlParser = fold (\<lambda>call m. call m)
     [add_parser ''list-users'',

      add_parser ''list-devices'',
      add_argument ''list-devices'' ''pan_user'',
      add_argument ''list-devices'' ''user_id'',

      add_parser ''start-verification'',
      add_argument ''start-verification'' ''pan_user'',
      add_argument ''start-verification'' ''user_id'',
      add_argument ''start-verification'' ''device_id'',

      add_parser ''accept-verification'',
      add_argument ''accept-verification'' ''pan_user'',
      add_argument ''accept-verification'' ''user_id'',
      add_argument ''accept-verification'' ''device_id'',

      add_parser ''confirm-verification'',
      add_argument ''confirm-verification'' ''pan_user'',
      add_argument ''confirm-verification'' ''user_id'',
      add_argument ''confirm-verification'' ''device_id'',

      add_parser ''verify-device'',
      add_argument ''verify-device'' ''pan_user'',
      add_argument ''verify-device'' ''user_id'',
      add_argument ''verify-device'' ''device_id'',

      add_parser ''verify-device'',
      add_argument ''verify-device'' ''pan_user'',
      add_argument ''verify-device'' ''user_id'',
      add_argument ''verify-device'' ''device_id'',

      add_parser ''import-keys'',
      add_argument ''import-keys'' ''pan_user'',
      add_argument ''import-keys'' ''path'',
      add_argument ''import-keys'' ''passphrase'',

      add_parser ''export-keys'',
      add_argument ''export-keys'' ''pan_user'',
      add_argument ''export-keys'' ''path'',
      add_argument ''export-keys'' ''passphrase''] []"

definition parse_args :: "string list \<Rightarrow> namespace result" where
  "parse_args argv = parse_args_of PanctlParser argv"

subsection \<open>Words of a line\<close>

text \<open>
  Cutting a string at every separator character; the pieces may be empty and there is
  always at least one.
\<close>

fun split_by :: "(char \<Rightarrow> bool) \<Rightarrow> string \<Rightarrow> string list" where
  "split_by sep [] = [[]]"
| "split_by sep (c # cs) =
     (if sep c then [] # split_by sep cs
      else (case split_by sep cs of
              [] \<Rightarrow> [[c]]
            | w # ws \<Rightarrow> (c # w) # ws))"

text \<open>\<^verbatim>\<open>text.split(" ")\<close>: cut at every single space.\<close>

definition split_on_space :: "string \<Rightarrow> string list" where
  "split_on_space s = split_by (\<lambda>c. c = CHR '' '') s"

text \<open>
  \<^verbatim>\<open>result.split()\<close>: cut at runs of white space and drop the empty pieces. The white
  space characters are those of Python's \<^verbatim>\<open>str\<close> among the code points below 256.
\<close>

definition is_space :: "char \<Rightarrow> bool" where
  "is_space c = ((of_char c :: nat) \<in> {9, 10, 11, 12, 13, 28, 29, 30, 31, 32, 133, 160})"

definition split_whitespace :: "string \<Rightarrow> string list" where
  "split_whitespace s = filter (\<lambda>w. w \<noteq> []) (split_by is_space s)"

subsection \<open>The daemon's control surface\<close>

text \<open>
  The two D-Bus proxies \<^verbatim>\<open>ctl\<close> and \<^verbatim>\<open>devices\<close>. A call returns the daemon's answer
  or raises; the answers are taken as given, one per call and arguments. A device is the
  dictionary the daemon sends, with the three keys the program reads.

  The record holds everything outside the program that can make one of its calls raise.
  Besides the proxies that is the prompt library's \<^verbatim>\<open>HTML\<close>, which parses its argument
  as XML and raises on a string that is not well formed (an id with a lone \<open>&\<close> or \<open><\<close>
  in it gives one): \<open>html_parses\<close> says which markup strings it accepts.
\<close>

record device =
  device_id :: string
  fingerprint_key :: string
  user_id :: string

type_synonym 'a remote = "exn + 'a"

record daemon =
  ctl_list_users :: "(string \<times> string) list remote"
  ctl_import_keys :: "pyval \<Rightarrow> pyval \<Rightarrow> pyval \<Rightarrow> unit remote"
  ctl_export_keys :: "pyval \<Rightarrow> pyval \<Rightarrow> pyval \<Rightarrow> unit remote"
  devices_list :: "pyval \<Rightarrow> device list remote"
  devices_list_user_devices :: "pyval \<Rightarrow> pyval \<Rightarrow> device list remote"
  devices_confirm_sas :: "pyval \<Rightarrow> pyval \<Rightarrow> pyval \<Rightarrow> unit remote"
  html_parses :: "string \<Rightarrow> bool"

subsection \<open>The completer\<close>

datatype completion = Completion (completion_text: string) (start_position: int)

text \<open>
  \<^verbatim>\<open>PanCompleter\<close>: the command names it was given, the daemon behind its two proxies,
  and the path completer of the prompt library, taken as a function of the word.
\<close>

record pan_completer =
  commands_of :: "string list"
  daemon_of :: daemon
  path_completer :: "string \<Rightarrow> completion list"

definition filter_words :: "string list \<Rightarrow> string \<Rightarrow> string list" where
  "filter_words words last_word = filter (\<lambda>word. str_in last_word word) words"

definition completions_for :: "string list \<Rightarrow> string \<Rightarrow> completion list" where
  "completions_for compl_words last_word =
     map (\<lambda>compl_word. Completion compl_word (- int (length last_word))) compl_words"

definition complete_commands :: "pan_completer \<Rightarrow> string \<Rightarrow> completion list" where
  "complete_commands self last_word =
     completions_for (filter_words (commands_of self) last_word) last_word"

text \<open>
  \<^verbatim>\<open>complete_users\<close> collects the user ids in a Python set, whose iteration order is
  not specified; the model lists each id once, in the order of first occurrence.
\<close>

definition complete_users :: "pan_completer \<Rightarrow> string \<Rightarrow> string \<Rightarrow> completion list remote" where
  "complete_users self last_word pan_user =
     (case devices_list (daemon_of self) (Str pan_user) of
        Inl e \<Rightarrow> Inl e
      | Inr devices \<Rightarrow>
          Inr (completions_for (filter_words (remdups (map user_id devices)) last_word)
                 last_word))"

definition complete_devices :: "pan_completer \<Rightarrow> string \<Rightarrow> string \<Rightarrow> string
    \<Rightarrow> completion list remote" where
  "complete_devices self last_word pan_user uid =
     (case devices_list_user_devices (daemon_of self) (Str pan_user) (Str uid) of
        Inl e \<Rightarrow> Inl e
      | Inr devices \<Rightarrow>
          Inr (completions_for (filter_words (map device_id devices) last_word) last_word))"

definition complete_pan_users :: "pan_completer \<Rightarrow> string \<Rightarrow> completion list remote" where
  "complete_pan_users self last_word =
     (case ctl_list_users (daemon_of self) of
        Inl e \<Rightarrow> Inl e
      | Inr users \<Rightarrow>
          Inr (completions_for (filter_words (map fst users) last_word) last_word))"

definition complete_verification :: "pan_completer \<Rightarrow> string \<Rightarrow> string \<Rightarrow> string list
    \<Rightarrow> completion list remote" where
  "complete_verification self command last_word words =
     (if length words = 2 then complete_pan_users self last_word
      else if length words = 3 then complete_users self last_word (words ! 1)
      else if length words = 4 then complete_devices self last_word (words ! 1) (words ! 2)
      else Inr [])"

definition complete_key_file_cmds :: "pan_completer \<Rightarrow> string \<Rightarrow> string \<Rightarrow> string list
    \<Rightarrow> completion list remote" where
  "complete_key_file_cmds self command last_word words =
     (if length words = 2 then complete_pan_users self last_word
      else if length words = 3 then Inr (path_completer self last_word)
      else Inr [])"

definition complete_list_devices :: "pan_completer \<Rightarrow> string \<Rightarrow> string list
    \<Rightarrow> completion list remote" where
  "complete_list_devices self last_word words =
     (if length words = 2 then complete_pan_users self last_word
      else if length words = 3 then complete_users self last_word (words ! 1)
      else Inr [])"

definition verification_commands :: "string list" where
  "verification_commands =
     [''start-verification'', ''accept-verification'', ''confirm-verification'',
      ''cancel-verification'', ''verify-device'', ''unverify-device'']"

definition get_completions :: "pan_completer \<Rightarrow> string \<Rightarrow> completion list remote" where
  "get_completions self text_before_cursor =
     (let words = split_on_space text_before_cursor;
          last_word = last words
      in if length words = 1 then Inr (complete_commands self last_word)
         else if length words > 1 then
           (let command = hd words
            in if command \<in> set verification_commands
               then complete_verification self command last_word words
               else if command \<in> set [''export-keys'', ''import-keys'']
               then complete_key_file_cmds self command last_word words
               else if command = ''list-devices''
               then complete_list_devices self last_word words
               else Inr [])
         else Inr [])"

subsection \<open>The control shell\<close>

text \<open>\<^verbatim>\<open>PanCtl.commands\<close>, the names handed to the completer.\<close>

definition commands :: "string list" where
  "commands =
     [''list-users'', ''list-devices'', ''export-keys'', ''import-keys'', ''verify-device'',
      ''unverify-device'', ''start-verification'', ''accept-verification'',
      ''confirm-verification'']"

text \<open>
  What the shell has done so far: everything shown on the terminal and every call sent to
  the daemon, oldest first.
\<close>

datatype rpc =
    List_users
  | Import_keys pyval pyval pyval
  | Export_keys pyval pyval pyval
  | List_user_devices pyval pyval
  | Confirm_sas pyval pyval pyval

record world =
  out :: "out_event list"
  calls :: "rpc list"

definition emit :: "out_event list \<Rightarrow> world \<Rightarrow> world" where
  "emit events w = w\<lparr>out := out w @ events\<rparr>"

definition call :: "rpc \<Rightarrow> world \<Rightarrow> world" where
  "call r w = w\<lparr>calls := calls w @ [r]\<rparr>"

text \<open>Reading an attribute of the namespace; a missing one raises.\<close>

definition getattr :: "namespace \<Rightarrow> string \<Rightarrow> pyval option" where
  "getattr args name = map_of (arguments args) name"

text \<open>A value inside an f-string.\<close>

fun py_str :: "pyval \<Rightarrow> string" where
  "py_str (Str s) = s"
| "py_str EmptyList = ''[]''"

definition list_users :: "daemon \<Rightarrow> world \<Rightarrow> (world \<times> exn) + world" where
  "list_users d w =
     (let w1 = call List_users w
      in case ctl_list_users d of
           Inl e \<Rightarrow> Inl (w1, e)
         | Inr users \<Rightarrow>
             Inr (emit (Stdout (Plain ''pantalaimon users:'')
                        # map (\<lambda>(user, dev). Stdout (Plain (''  '' @ user @ '' '' @ dev))) users)
                    w1))"

definition import_keys :: "daemon \<Rightarrow> namespace \<Rightarrow> world \<Rightarrow> (world \<times> exn) + world" where
  "import_keys d args w =
     (case (getattr args ''pan_user'', getattr args ''path'', getattr args ''passphrase'') of
        (Some pu, Some pa, Some ph) \<Rightarrow>
          (let w1 = call (Import_keys pu pa ph) w
           in case ctl_import_keys d pu pa ph of Inl e \<Rightarrow> Inl (w1, e) | Inr u \<Rightarrow> Inr w1)
      | _ \<Rightarrow> Inl (w, AttributeError))"

definition export_keys :: "daemon \<Rightarrow> namespace \<Rightarrow> world \<Rightarrow> (world \<times> exn) + world" where
  "export_keys d args w =
     (case (getattr args ''pan_user'', getattr args ''path'', getattr args ''passphrase'') of
        (Some pu, Some pa, Some ph) \<Rightarrow>
          (let w1 = call (Export_keys pu pa ph) w
           in case ctl_export_keys d pu pa ph of Inl e \<Rightarrow> Inl (w1, e) | Inr u \<Rightarrow> Inr w1)
      | _ \<Rightarrow> Inl (w, AttributeError))"

definition confirm_sas :: "daemon \<Rightarrow> namespace \<Rightarrow> world \<Rightarrow> (world \<times> exn) + world" where
  "confirm_sas d args w =
     (case (getattr args ''pan_user'', getattr args ''user_id'', getattr args ''device_id'') of
        (Some pu, Some ui, Some di) \<Rightarrow>
          (let w1 = call (Confirm_sas pu ui di) w
           in case devices_confirm_sas d pu ui di of Inl e \<Rightarrow> Inl (w1, e) | Inr u \<Rightarrow> Inr w1)
      | _ \<Rightarrow> Inl (w, AttributeError))"

text \<open>
  \<^verbatim>\<open>print_formatted_text(HTML(markup))\<close>: the markup is parsed first, and a string the
  parser refuses raises \<open>ExpatError\<close> before anything is shown; an accepted one is shown,
  recorded here as the markup string.
\<close>

definition print_formatted_text :: "daemon \<Rightarrow> string \<Rightarrow> world \<Rightarrow> (world \<times> exn) + world" where
  "print_formatted_text d markup w =
     (if html_parses d markup then Inr (emit [Stdout (Formatted markup)] w)
      else Inl (w, ExpatError))"

definition device_markup :: "device \<Rightarrow> string" where
  "device_markup dev =
     (let key = partition_key (fingerprint_key dev);
          color = get_color (device_id dev)
      in '' - Device id:    <'' @ color @ ''>'' @ device_id dev @ ''</'' @ color @ ''>''
         @ [CHR 0x0A] @ ''   - Device key: <ansiyellow>'' @ key @ ''</ansiyellow>'')"

text \<open>The \<^verbatim>\<open>for device in devices\<close> loop of \<^verbatim>\<open>list_devices\<close>.\<close>

fun print_devices :: "daemon \<Rightarrow> device list \<Rightarrow> world \<Rightarrow> (world \<times> exn) + world" where
  "print_devices d [] w = Inr w"
| "print_devices d (dev # devices) w =
     (case print_formatted_text d (device_markup dev) w of
        Inl stop \<Rightarrow> Inl stop
      | Inr w1 \<Rightarrow> print_devices d devices w1)"

definition list_devices :: "daemon \<Rightarrow> namespace \<Rightarrow> world \<Rightarrow> (world \<times> exn) + world" where
  "list_devices d args w =
     (case (getattr args ''pan_user'', getattr args ''user_id'') of
        (Some pu, Some ui) \<Rightarrow>
          (let w1 = call (List_user_devices pu ui) w
           in case devices_list_user_devices d pu ui of
                Inl e \<Rightarrow> Inl (w1, e)
              | Inr devices \<Rightarrow>
                  (case print_formatted_text d
                          (''Devices for user <b>'' @ py_str ui @ ''</b>:'') w1 of
                     Inl stop \<Rightarrow> Inl stop
                   | Inr w2 \<Rightarrow> print_devices d devices w2))
      | _ \<Rightarrow> Inl (w, AttributeError))"

text \<open>The chain of comparisons at the end of the loop body.\<close>

definition dispatch :: "daemon \<Rightarrow> namespace \<Rightarrow> world \<Rightarrow> (world \<times> exn) + world" where
  "dispatch d parsed_args w =
     (let command = subcommand parsed_args
      in if command = Some ''list-users'' then list_users d w
         else if command = Some ''export-keys'' then export_keys d parsed_args w
         else if command = Some ''import-keys'' then import_keys d parsed_args w
         else if command = Some ''accept-verification'' then Inr w
         else if command = Some ''list-devices'' then list_devices d parsed_args w
         else if command = Some ''confirm-verification'' then confirm_sas d parsed_args w
         else Inr w)"

text \<open>The completer the loop creates: \<^verbatim>\<open>PanCompleter(self.commands, self.ctl, self.devices)\<close>.\<close>

definition completer :: "daemon \<Rightarrow> (string \<Rightarrow> completion list) \<Rightarrow> pan_completer" where
  "completer d paths = \<lparr>commands_of = commands, daemon_of = d, path_completer = paths\<rparr>"

text \<open>
  What the prompt hands back, one entry per time the loop asks: a line, end of input, or
  the operator's interrupt. The loop runs over a script of these; when the script is used
  up the shell is left waiting at its prompt.
\<close>

datatype prompt_result = Line string | EndOfInput | Interrupt

datatype ending = Returned | Raised exn | Waiting

fun loop :: "daemon \<Rightarrow> prompt_result list \<Rightarrow> world \<Rightarrow> world \<times> ending" where
  "loop d [] w = (emit [Stdout Prompt] w, Waiting)"
| "loop d (EndOfInput # script) w = (emit [Stdout Prompt] w, Returned)"
| "loop d (Interrupt # script) w = (emit [Stdout Prompt] w, Raised KeyboardInterrupt)"
| "loop d (Line result # script) w =
     (let w0 = emit [Stdout Prompt] w
      in if result = [] then loop d script w0
         else (case parse_args (split_whitespace result) of
                 Inl (printed, e) \<Rightarrow>
                   if e = ParseError then loop d script (emit printed w0)
                   else (emit printed w0, Raised e)
               | Inr parsed_args \<Rightarrow>
                   (case dispatch d parsed_args w0 of
                      Inl (w1, e) \<Rightarrow> (w1, Raised e)
                    | Inr w1 \<Rightarrow> loop d script w1)))"

text \<open>
  \<^verbatim>\<open>main\<close>: \<^verbatim>\<open>PanCtl()\<close> either finds the daemon on the session bus or raises
  \<^verbatim>\<open>DBusException\<close>, which is answered with a \<^verbatim>\<open>print\<close> and \<^verbatim>\<open>sys.exit(-1)\<close>.
  Otherwise the loop runs; its normal return and the operator's interrupt both let
  \<^verbatim>\<open>main\<close> return, any other exception leaves it.
\<close>

definition main :: "daemon option \<Rightarrow> prompt_result list \<Rightarrow> world \<times> ending" where
  "main bus script =
     (case bus of
        None \<Rightarrow>
          (emit [Stdout (Plain ''Error, no pantalaimon bus found'')] \<lparr>out = [], calls = []\<rparr>,
           Raised (SystemExit (- 1)))
      | Some d \<Rightarrow>
          (case loop d script \<lparr>out = [], calls = []\<rparr> of
             (w, Raised KeyboardInterrupt) \<Rightarrow> (w, Returned)
           | r \<Rightarrow> r))"

subsection \<open>A sample daemon\<close>

text \<open>
  A daemon that answers every call, with two pan users and three known devices, and a
  markup parser that accepts every string; the concrete instances below are run against
  it.
\<close>

definition sample_devices :: "device list" where
  "sample_devices =
     [\<lparr>device_id = ''ALPHADEV'', fingerprint_key = ''abcdefgh'', user_id = ''@carol:example.org''\<rparr>,
      \<lparr>device_id = ''BETADEV'', fingerprint_key = ''abcdefg'', user_id = ''@carol:example.org''\<rparr>,
      \<lparr>device_id = ''GAMMADEV'', fingerprint_key = ''0123456789'', user_id = ''@dave:example.org''\<rparr>]"

definition sample_daemon :: daemon where
  "sample_daemon =
     \<lparr>ctl_list_users = Inr [(''@alice:example.org'', ''PANDEVA''), (''@bob:example.org'', ''PANDEVB'')],
      ctl_import_keys = (\<lambda>pan_user path passphrase. Inr ()),
      ctl_export_keys = (\<lambda>pan_user path passphrase. Inr ()),
      devices_list = (\<lambda>pan_user. Inr sample_devices),
      devices_list_user_devices =
        (\<lambda>pan_user uid. Inr (filter (\<lambda>dev. Str (user_id dev) = uid) sample_devices)),
      devices_confirm_sas = (\<lambda>pan_user uid dev. Inr ()),
      html_parses = (\<lambda>markup. True)\<rparr>"

definition sample_completer :: pan_completer where
  "sample_completer = completer sample_daemon (\<lambda>word. [])"

section \<open>Properties\<close>

subsection \<open>The sub-command table\<close>

lemma PanctlParser_table:
  "PanctlParser =
     [(''list-users'', []),
      (''list-devices'', [''pan_user'', ''user_id'']),
      (''start-verification'', [''pan_user'', ''user_id'', ''device_id'']),
      (''accept-verification'', [''pan_user'', ''user_id'', ''device_id'']),
      (''confirm-verification'', [''pan_user'', ''user_id'', ''device_id'']),
      (''verify-device'', [''pan_user'', ''user_id'', ''device_id'']),
      (''import-keys'', [''pan_user'', ''path'', ''passphrase'']),
      (''export-keys'', [''pan_user'', ''path'', ''passphrase''])]"
  by (simp add: PanctlParser_def add_parser_def add_argument_def)

lemma keys_plain: "map_of PanctlParser verb = Some dests \<Longrightarrow> hd verb \<noteq> CHR ''-''"
  by (auto simp: PanctlParser_table split: if_splits)

subsection \<open>Lines without option-like words\<close>

lemma parse_optional_plain: "hd a \<noteq> CHR ''-'' \<Longrightarrow> parse_optional a = Positional"
  by (simp add: parse_optional_def)

lemma consume_plain:
  "\<forall>a\<in>set as. hd a \<noteq> CHR ''-'' \<Longrightarrow>
   consume dests as vals extras last_bound =
     Inr (vals @ zip dests (map Str as), drop (length as) dests, extras @ drop (length dests) as)"
proof (induction as arbitrary: dests vals extras last_bound)
  case Nil
  then show ?case by simp
next
  case (Cons a as)
  then have a: "parse_optional a = Positional" "a \<noteq> ''--''"
    by (auto simp: parse_optional_plain)
  show ?case
  proof (cases dests)
    case Nil
    with Cons a show ?thesis by simp
  next
    case (Cons d ds)
    with Cons.IH [of ds "vals @ [(d, Str a)]" extras True] Cons.prems a show ?thesis by simp
  qed
qed

lemma sub_parse_plain:
  assumes "\<forall>a\<in>set as. hd a \<noteq> CHR ''-''"
  shows "sub_parse_known_args dests as =
     (if length as < length dests then error (RequiredArguments (drop (length as) dests))
      else Inr (zip dests (map Str as), drop (length dests) as))"
  by (simp add: sub_parse_known_args_def consume_plain [OF assms])

lemma parse_args_plain:
  assumes "hd verb \<noteq> CHR ''-''" and "\<forall>a\<in>set as. hd a \<noteq> CHR ''-''"
  shows "parse_args_of m (verb # as) =
     (case map_of m verb of
        None \<Rightarrow> error (InvalidChoice verb (map fst m))
      | Some dests \<Rightarrow>
          if length as < length dests then error (RequiredArguments (drop (length as) dests))
          else if length dests < length as
          then error (UnrecognizedArguments (drop (length dests) as))
          else Inr \<lparr>subcommand = Some verb, arguments = zip dests (map Str as)\<rparr>)"
proof -
  have v: "parse_optional verb = Positional" "verb \<noteq> ''--''"
    using assms(1) by (auto simp: parse_optional_plain)
  show ?thesis
    by (auto simp: parse_args_of_def v invoke_def sub_parse_plain [OF assms(2)] error_def
        split: option.splits)
qed

lemma invalid_choice:
  assumes "hd name \<noteq> CHR ''-''" and "map_of m name = None"
  shows "parse_args_of m (name # as) = error (InvalidChoice name (map fst m))"
proof -
  have v: "parse_optional name = Positional" "name \<noteq> ''--''"
    using assms(1) by (auto simp: parse_optional_plain)
  show ?thesis
    by (simp add: parse_args_of_def v invoke_def assms(2) error_def)
qed

subsection \<open>Lines with options and separators\<close>

lemma consume_explicit_stops: "\<exists>stop. (consume_explicit opt ex :: 'a result) = Inl stop"
  by (induction opt ex rule: consume_explicit.induct) (auto simp: error_def help_action_def)

lemma consume_optional_stops: "\<exists>stop. (consume_optional opt ex :: 'a result) = Inl stop"
  using consume_explicit_stops by (auto simp: consume_optional_def help_action_def split: option.splits)

lemma consume_positional:
  "\<forall>a\<in>set as. parse_optional a = Positional \<and> a \<noteq> ''--'' \<Longrightarrow>
   consume dests as vals extras last_bound =
     Inr (vals @ zip dests (map Str as), drop (length as) dests, extras @ drop (length dests) as)"
proof (induction as arbitrary: dests vals extras last_bound)
  case Nil
  then show ?case by simp
next
  case (Cons a as)
  then have a: "parse_optional a = Positional" "a \<noteq> ''--''"
    by auto
  show ?case
  proof (cases dests)
    case Nil
    with Cons a show ?thesis by simp
  next
    case (Cons d ds)
    with Cons.IH [of ds "vals @ [(d, Str a)]" extras True] Cons.prems a show ?thesis by simp
  qed
qed

lemma bind_rest_shape:
  "bind_rest dests post vals extras = (v, m, e) \<Longrightarrow>
   length e = length extras + (length post - length dests) \<and> m = drop (length post) dests"
  by (induction dests post vals extras rule: bind_rest.induct) auto

lemma bind_rest_fits:
  "length post \<le> length dests \<Longrightarrow>
   bind_rest dests post vals extras =
     (vals @ zip dests (map (\<lambda>a. if a = ''--'' then EmptyList else Str a) post),
      drop (length post) dests, extras)"
  by (induction dests post vals extras rule: bind_rest.induct) auto

lemma after_dashes_shape:
  assumes "after_dashes dests post vals extras lb = (v, m, e)"
  shows "length extras \<le> length e
       \<and> (length e = length extras \<and> m = [] \<longrightarrow>
            length post = length dests \<and> (lb \<or> dests \<noteq> []))"
proof (cases lb)
  case True
  with assms bind_rest_shape [of dests post vals extras v m e] show ?thesis
    by (auto simp: after_dashes_def)
next
  case False
  show ?thesis
  proof (cases dests)
    case Nil
    with False assms show ?thesis by (auto simp: after_dashes_def)
  next
    case (Cons d ds)
    show ?thesis
    proof (cases post)
      case Nil
      with False Cons assms show ?thesis by (auto simp: after_dashes_def)
    next
      case (Cons a as)
      with False \<open>dests = d # ds\<close> assms
      have "bind_rest ds as (vals @ [(d, Str a)]) extras = (v, m, e)"
        by (simp add: after_dashes_def)
      from bind_rest_shape [OF this] Cons \<open>dests = d # ds\<close> show ?thesis by auto
    qed
  qed
qed

lemma consume_shape:
  "consume dests ws vals extras lb = Inr (v, m, e) \<Longrightarrow>
   length extras \<le> length e
   \<and> (length e = length extras \<and> m = [] \<longrightarrow>
        (if ''--'' \<in> set ws
         then \<exists>pre post. ws = pre @ ''--'' # post
                \<and> (\<forall>w\<in>set pre. parse_optional w = Positional \<and> w \<noteq> ''--'')
                \<and> length pre + length post = length dests \<and> (lb \<or> dests \<noteq> [])
         else length ws = length dests \<and> (\<forall>w\<in>set ws. parse_optional w = Positional)
              \<and> v = vals @ zip dests (map Str ws)))"
proof (induction ws arbitrary: dests vals extras lb)
  case Nil
  then show ?case by auto
next
  case (Cons a as)
  show ?case
  proof (cases "a = ''--''")
    case True
    with Cons.prems have "after_dashes dests as vals extras lb = (v, m, e)" by simp
    from after_dashes_shape [OF this]
    have 1: "length extras \<le> length e"
      and 2: "length e = length extras \<and> m = [] \<longrightarrow>
        length as = length dests \<and> (lb \<or> dests \<noteq> [])"
      by auto
    have "\<exists>pre post. a # as = pre @ ''--'' # post
        \<and> (\<forall>w\<in>set pre. parse_optional w = Positional \<and> w \<noteq> ''--'')
        \<and> length pre + length post = length dests \<and> (lb \<or> dests \<noteq> [])"
      if "length e = length extras" "m = []"
    proof (rule exI [of _ "[]"], rule exI [of _ as])
      show "a # as = [] @ ''--'' # as
        \<and> (\<forall>w\<in>set []. parse_optional w = Positional \<and> w \<noteq> ''--'')
        \<and> length [] + length as = length dests \<and> (lb \<or> dests \<noteq> [])"
        using 2 that True by simp
    qed
    with 1 True show ?thesis by auto
  next
    case nd: False
    show ?thesis
    proof (cases "parse_optional a")
      case Positional
      show ?thesis
      proof (cases dests)
        case Nil
        with Cons.prems nd Positional
        have "consume [] as vals (extras @ [a]) False = Inr (v, m, e)" by simp
        from Cons.IH [OF this] show ?thesis by auto
      next
        case (Cons d ds)
        with Cons.prems nd Positional
        have c: "consume ds as (vals @ [(d, Str a)]) extras True = Inr (v, m, e)" by simp
        note ih = Cons.IH [OF c]
        show ?thesis
        proof (cases "''--'' \<in> set as")
          case False
          with ih Cons nd Positional show ?thesis by auto
        next
          case True
          have "\<exists>pre post. a # as = pre @ ''--'' # post
              \<and> (\<forall>w\<in>set pre. parse_optional w = Positional \<and> w \<noteq> ''--'')
              \<and> length pre + length post = length dests \<and> (lb \<or> dests \<noteq> [])"
            if "length e = length extras" "m = []"
          proof -
            from ih True that obtain pre post where
              p: "as = pre @ ''--'' # post"
                "\<forall>w\<in>set pre. parse_optional w = Positional \<and> w \<noteq> ''--''"
                "length pre + length post = length ds"
              by auto
            show ?thesis
            proof (rule exI [of _ "a # pre"], rule exI [of _ post])
              show "a # as = (a # pre) @ ''--'' # post
                \<and> (\<forall>w\<in>set (a # pre). parse_optional w = Positional \<and> w \<noteq> ''--'')
                \<and> length (a # pre) + length post = length dests \<and> (lb \<or> dests \<noteq> [])"
                using p Cons nd Positional by simp
            qed
          qed
          with ih True show ?thesis by auto
        qed
      qed
    next
      case (Optional t)
      show ?thesis
      proof (cases t)
        case (Help opt ex)
        obtain stop where
          "(consume_optional opt ex :: ((string \<times> pyval) list \<times> string list \<times> string list) result)
             = Inl stop"
          using consume_optional_stops by blast
        with Cons.prems nd Optional Help show ?thesis by simp
      next
        case NoAction
        with Cons.prems nd Optional
        have "consume dests as vals (extras @ [a]) False = Inr (v, m, e)" by simp
        from Cons.IH [OF this] show ?thesis by auto
      qed
    next
      case (Ambiguous opts)
      with Cons.prems nd show ?thesis by (simp add: error_def)
    qed
  qed
qed

lemma consume_returns:
  "\<forall>w\<in>set (takeWhile (\<lambda>w. w \<noteq> ''--'') ws).
      parse_optional w = Positional \<or> parse_optional w = Optional NoAction \<Longrightarrow>
   \<exists>r. consume dests ws vals extras lb = Inr r"
proof (induction ws arbitrary: dests vals extras lb)
  case Nil
  then show ?case by simp
next
  case (Cons a as)
  show ?case
  proof (cases "a = ''--''")
    case True
    then show ?thesis by (cases "after_dashes dests as vals extras lb") auto
  next
    case False
    with Cons.prems have k: "parse_optional a = Positional \<or> parse_optional a = Optional NoAction"
      and r: "\<forall>w\<in>set (takeWhile (\<lambda>w. w \<noteq> ''--'') as).
        parse_optional w = Positional \<or> parse_optional w = Optional NoAction"
      by auto
    from k show ?thesis
    proof
      assume p: "parse_optional a = Positional"
      show ?thesis
        using Cons.IH [OF r] False p by (cases dests) auto
    next
      assume "parse_optional a = Optional NoAction"
      with Cons.IH [OF r] False show ?thesis by auto
    qed
  qed
qed

lemma parse_args_verb:
  assumes "map_of PanctlParser verb = Some dests"
  shows "parse_args (verb # ws) =
     (case consume dests ws [] [] False of
        Inl stop \<Rightarrow> Inl stop
      | Inr (vals, missing, extras) \<Rightarrow>
          if missing \<noteq> [] then error (RequiredArguments missing)
          else if extras \<noteq> [] then error (UnrecognizedArguments extras)
          else Inr \<lparr>subcommand = Some verb, arguments = vals\<rparr>)"
proof -
  have v: "parse_optional verb = Positional" "verb \<noteq> ''--''"
    using keys_plain [OF assms] by (auto simp: parse_optional_plain)
  show ?thesis
    by (auto simp: parse_args_def parse_args_of_def v invoke_def assms sub_parse_known_args_def
        error_def split: sum.splits)
qed


lemma get_option_tuples_short:
  "length (get_option_tuples (CHR ''-'' # c1 # cs)) \<le> 1"
  by (auto simp: get_option_tuples_def option_strings_def split_eq_def)

lemma parse_optional_kinds:
  "parse_optional w = Positional \<or> parse_optional w = Optional NoAction
   \<or> (\<exists>opt ex. parse_optional w = Optional (Help opt ex))"
proof (cases w)
  case Nil
  then show ?thesis by (simp add: parse_optional_def)
next
  case (Cons c0 r)
  show ?thesis
  proof (cases "c0 = CHR ''-''")
    case False
    with Cons show ?thesis by (simp add: parse_optional_def)
  next
    case True
    show ?thesis
    proof (cases r)
      case Nil
      with Cons True show ?thesis by (simp add: parse_optional_def option_strings_def)
    next
      case (Cons c1 cs)
      with \<open>w = c0 # r\<close> True have w: "w = CHR ''-'' # c1 # cs" by simp
      from get_option_tuples_short [of c1 cs]
      have "get_option_tuples w = [] \<or> (\<exists>opt ex. get_option_tuples w = [(opt, ex)])"
        unfolding w by (cases "get_option_tuples (CHR ''-'' # c1 # cs)") auto
      then show ?thesis
        by (auto simp: parse_optional_def split: option.splits)
    qed
  qed
qed


lemma consume_prefix:
  "\<forall>w\<in>set pre. parse_optional w = Positional \<and> w \<noteq> ''--'' \<Longrightarrow>
   length pre \<le> length dests \<Longrightarrow>
   consume dests (pre @ rest) vals extras lb =
     consume (drop (length pre) dests) rest (vals @ zip dests (map Str pre)) extras
       (lb \<or> pre \<noteq> [])"
proof (induction pre arbitrary: dests vals lb)
  case Nil
  then show ?case by simp
next
  case (Cons a pre)
  then obtain d ds where d: "dests = d # ds" by (cases dests) auto
  from Cons.prems have a: "parse_optional a = Positional" "a \<noteq> ''--''" by auto
  from Cons.IH [of ds "vals @ [(d, Str a)]" True] Cons.prems d a show ?case by simp
qed

lemma consume_separator:
  assumes "\<forall>w\<in>set pre. parse_optional w = Positional \<and> w \<noteq> ''--''"
    and "length pre + length post = length dests" and "dests \<noteq> []"
  shows "consume dests (pre @ ''--'' # post) [] [] False =
     Inr (zip dests (map Str pre) @
          zip (drop (length pre) dests)
            (if pre = [] then Str (hd post) # map (\<lambda>a. if a = ''--'' then EmptyList else Str a) (tl post)
             else map (\<lambda>a. if a = ''--'' then EmptyList else Str a) post),
          [], [])"
proof -
  from assms(2) have le: "length pre \<le> length dests" by simp
  have c: "consume dests (pre @ ''--'' # post) [] [] False =
      Inr (after_dashes (drop (length pre) dests) post (zip dests (map Str pre)) [] (pre \<noteq> []))"
    using consume_prefix [OF assms(1) le, of "''--'' # post" "[]" "[]" False] by simp
  show ?thesis
  proof (cases "pre = []")
    case False
    have "length post \<le> length (drop (length pre) dests)" using assms(2) by simp
    from bind_rest_fits [OF this, of "zip dests (map Str pre)" "[]"] assms(2) False c
    show ?thesis by (simp add: after_dashes_def)
  next
    case True
    with assms(2,3) obtain d ds a as where s: "dests = d # ds" "post = a # as"
      by (cases dests; cases post) auto
    with assms(2) True have "length as \<le> length ds" by simp
    from bind_rest_fits [OF this, of "[(d, Str a)]" "[]"] c True s assms(2) show ?thesis
      by (simp add: after_dashes_def)
  qed
qed

subsection \<open>The command grammar\<close>

text \<open>
  Claim C1. The verb \<open>unverify-device\<close> followed by exactly three words should parse into
  an invocation binding \<open>pan_user\<close>, \<open>user_id\<close> and \<open>device_id\<close>. The constructor registers
  \<open>verify-device\<close> a second time where \<open>unverify-device\<close> was meant, so the verb is not in
  the table: whatever the three words are, the line is refused as an invalid choice.
\<close>

theorem unverify_device_rejected:
  "parse_args [''unverify-device'', pan_user, uid, dev] =
     Inl ([Stdout (ErrorReport (InvalidChoice ''unverify-device''
            [''list-users'', ''list-devices'', ''start-verification'', ''accept-verification'',
             ''confirm-verification'', ''verify-device'', ''import-keys'', ''export-keys'']))],
          ParseError)"
proof -
  have "map_of PanctlParser ''unverify-device'' = None"
    by (simp add: PanctlParser_table)
  then have "parse_args_of PanctlParser (''unverify-device'' # [pan_user, uid, dev]) =
      error (InvalidChoice ''unverify-device'' (map fst PanctlParser))"
    by (intro invalid_choice) simp_all
  then show ?thesis
    by (simp add: parse_args_def error_def PanctlParser_table)
qed

text \<open>
  Claim C3, as stated, fails in three ways. A line may supply exactly the declared number
  of words and still be refused, because a word that begins with \<open>-\<close> and is not a
  number is read as an option: \<open>export-keys\<close> gets its three words and the parser misses
  the passphrase. A line may supply one word more than declared and be accepted, because
  the first \<open>--\<close> is a separator and not an argument: \<open>list-devices\<close> takes three words,
  and with a second \<open>--\<close> one parameter is bound to no word at all. And a line with a
  surplus word may end in the help action instead of a parse failure.
\<close>

theorem exact_count_refused_counterexample:
  "parse_args [''export-keys'', ''alice'', ''keys.txt'', ''-secret''] =
     Inl ([Stdout (ErrorReport (RequiredArguments [''passphrase'']))], ParseError)
   \<and> parse_args [''list-devices'', ''--'', ''alice'', ''bob''] =
     Inr \<lparr>subcommand = Some ''list-devices'',
          arguments = [(''pan_user'', Str ''alice''), (''user_id'', Str ''bob'')]\<rparr>
   \<and> parse_args [''list-devices'', ''--'', ''alice'', ''--''] =
     Inr \<lparr>subcommand = Some ''list-devices'',
          arguments = [(''pan_user'', Str ''alice''), (''user_id'', EmptyList)]\<rparr>
   \<and> parse_args [''list-users'', ''-h''] = Inl ([Stdout HelpText], SystemExit 0)"
  by (simp add: parse_args_def parse_args_of_def PanctlParser_table invoke_def
      sub_parse_known_args_def parse_optional_def option_strings_def split_eq_def
      get_option_tuples_def negative_number_def negative_number_core_def is_digit_def error_def
      after_dashes_def consume_optional_def help_action_def)

text \<open>
  Claim C3, amended. Call a word positional when it is not \<open>--\<close> and the parser does not
  read it as an option; every word that does not begin with \<open>-\<close> is positional, and so
  are \<open>-\<close> itself and negative numbers. For every verb of the parser's table:

  \<^item> a line with exactly the declared number of words, all positional, gives the invocation
    binding the parameters to the words in order;
  \<^item> a line of positional words, then \<open>--\<close>, then further words, with exactly the declared
    number of words beside the \<open>--\<close> and at least one parameter declared, gives the
    invocation binding the parameters to those words in order, the words after the \<open>--\<close>
    taken as they are, except that a further \<open>--\<close> is bound as the empty list unless it
    comes first after a leading \<open>--\<close>;
  \<^item> no other line gives an invocation: none exists with partial or excess arguments
    apart from the separator;
  \<^item> a line in which no word before the first \<open>--\<close> is read as the help option gives an
    invocation or a \<open>ParseError\<close>, so that with fewer or more words than declared, and no
    \<open>--\<close>, it gives a \<open>ParseError\<close>.
\<close>

theorem parse_args_arity:
  assumes "map_of PanctlParser verb = Some dests"
  shows "(length ws = length dests
            \<and> (\<forall>w\<in>set ws. parse_optional w = Positional \<and> w \<noteq> ''--'') \<longrightarrow>
          parse_args (verb # ws) =
            Inr \<lparr>subcommand = Some verb, arguments = zip dests (map Str ws)\<rparr>)
       \<and> (ws = pre @ ''--'' # post
            \<and> (\<forall>w\<in>set pre. parse_optional w = Positional \<and> w \<noteq> ''--'')
            \<and> length pre + length post = length dests \<and> dests \<noteq> [] \<longrightarrow>
          parse_args (verb # ws) =
            Inr \<lparr>subcommand = Some verb,
                 arguments = zip dests (map Str pre) @
                   zip (drop (length pre) dests)
                     (if pre = []
                      then Str (hd post)
                           # map (\<lambda>a. if a = ''--'' then EmptyList else Str a) (tl post)
                      else map (\<lambda>a. if a = ''--'' then EmptyList else Str a) post)\<rparr>)
       \<and> (parse_args (verb # ws) = Inr ns \<longrightarrow>
            (length ws = length dests
               \<and> (\<forall>w\<in>set ws. parse_optional w = Positional \<and> w \<noteq> ''--'')
               \<and> ns = \<lparr>subcommand = Some verb, arguments = zip dests (map Str ws)\<rparr>)
            \<or> (\<exists>pre post. ws = pre @ ''--'' # post
                  \<and> (\<forall>w\<in>set pre. parse_optional w = Positional \<and> w \<noteq> ''--'')
                  \<and> length pre + length post = length dests \<and> dests \<noteq> []))
       \<and> ((\<forall>w\<in>set (takeWhile (\<lambda>w. w \<noteq> ''--'') ws).
               \<forall>opt ex. parse_optional w \<noteq> Optional (Help opt ex)) \<longrightarrow>
            (\<exists>ns. parse_args (verb # ws) = Inr ns)
            \<or> (\<exists>m. parse_args (verb # ws) = Inl ([Stdout (ErrorReport m)], ParseError)))
       \<and> (length ws \<noteq> length dests \<and> ''--'' \<notin> set ws
            \<and> (\<forall>w\<in>set ws. \<forall>opt ex. parse_optional w \<noteq> Optional (Help opt ex)) \<longrightarrow>
            (\<exists>m. parse_args (verb # ws) = Inl ([Stdout (ErrorReport m)], ParseError)))
       \<and> (hd word \<noteq> CHR ''-'' \<longrightarrow> parse_optional word = Positional \<and> word \<noteq> ''--'')"
proof -
  note pa = parse_args_verb [OF assms, of ws]
  have 1: "parse_args (verb # ws) =
      Inr \<lparr>subcommand = Some verb, arguments = zip dests (map Str ws)\<rparr>"
    if "length ws = length dests" "\<forall>w\<in>set ws. parse_optional w = Positional \<and> w \<noteq> ''--''"
    using pa consume_positional [OF that(2), of dests "[]" "[]" False] that(1) by simp
  have 2: "parse_args (verb # ws) =
      Inr \<lparr>subcommand = Some verb,
           arguments = zip dests (map Str pre) @
             zip (drop (length pre) dests)
               (if pre = []
                then Str (hd post) # map (\<lambda>a. if a = ''--'' then EmptyList else Str a) (tl post)
                else map (\<lambda>a. if a = ''--'' then EmptyList else Str a) post)\<rparr>"
    if "ws = pre @ ''--'' # post"
      "\<forall>w\<in>set pre. parse_optional w = Positional \<and> w \<noteq> ''--''"
      "length pre + length post = length dests" "dests \<noteq> []"
    using pa consume_separator [OF that(2,3,4)] that(1) by simp
  have 3: "(length ws = length dests
               \<and> (\<forall>w\<in>set ws. parse_optional w = Positional \<and> w \<noteq> ''--'')
               \<and> ns = \<lparr>subcommand = Some verb, arguments = zip dests (map Str ws)\<rparr>)
            \<or> (\<exists>pre post. ws = pre @ ''--'' # post
                  \<and> (\<forall>w\<in>set pre. parse_optional w = Positional \<and> w \<noteq> ''--'')
                  \<and> length pre + length post = length dests \<and> dests \<noteq> [])"
    if p: "parse_args (verb # ws) = Inr ns" for ns
  proof -
    from p pa obtain v where c: "consume dests ws [] [] False = Inr (v, [], [])"
      and n: "ns = \<lparr>subcommand = Some verb, arguments = v\<rparr>"
      by (auto simp: error_def split: sum.splits if_splits)
    from consume_shape [OF c] show ?thesis
      using n by (cases "''--'' \<in> set ws") auto
  qed
  have 4: "(\<exists>ns. parse_args (verb # ws) = Inr ns)
      \<or> (\<exists>m. parse_args (verb # ws) = Inl ([Stdout (ErrorReport m)], ParseError))"
    if h: "\<forall>w\<in>set (takeWhile (\<lambda>w. w \<noteq> ''--'') ws).
        \<forall>opt ex. parse_optional w \<noteq> Optional (Help opt ex)"
  proof -
    have "\<forall>w\<in>set (takeWhile (\<lambda>w. w \<noteq> ''--'') ws).
        parse_optional w = Positional \<or> parse_optional w = Optional NoAction"
      using h parse_optional_kinds by blast
    from consume_returns [OF this, of dests "[]" "[]" False]
    obtain r where "consume dests ws [] [] False = Inr r" by blast
    with pa show ?thesis
      by (cases r) (auto simp: error_def)
  qed
  have 5: "\<exists>m. parse_args (verb # ws) = Inl ([Stdout (ErrorReport m)], ParseError)"
    if "length ws \<noteq> length dests" "''--'' \<notin> set ws"
      "\<forall>w\<in>set ws. \<forall>opt ex. parse_optional w \<noteq> Optional (Help opt ex)"
  proof -
    have "\<forall>w\<in>set (takeWhile (\<lambda>w. w \<noteq> ''--'') ws).
        \<forall>opt ex. parse_optional w \<noteq> Optional (Help opt ex)"
      using that(3) by (meson set_takeWhileD)
    from 4 [OF this] show ?thesis
    proof
      assume "\<exists>ns. parse_args (verb # ws) = Inr ns"
      then obtain ns where "parse_args (verb # ws) = Inr ns" ..
      from 3 [OF this] that(1,2) show ?thesis by auto
    qed
  qed
  have 6: "hd word \<noteq> CHR ''-'' \<longrightarrow> parse_optional word = Positional \<and> word \<noteq> ''--''"
    by (auto simp: parse_optional_plain)
  from 1 2 3 4 5 6 show ?thesis by blast
qed

theorem parse_args_arity_witness:
  "map_of PanctlParser ''list-devices'' = Some [''pan_user'', ''user_id'']
   \<and> parse_args [''list-devices'', ''@alice:example.org'', ''@bob:example.org''] =
       Inr \<lparr>subcommand = Some ''list-devices'',
            arguments = [(''pan_user'', Str ''@alice:example.org''),
                         (''user_id'', Str ''@bob:example.org'')]\<rparr>
   \<and> parse_args [''list-devices'', ''-'', ''-1''] =
       Inr \<lparr>subcommand = Some ''list-devices'',
            arguments = [(''pan_user'', Str ''-''), (''user_id'', Str ''-1'')]\<rparr>
   \<and> parse_args [''list-devices'', ''alice'', ''--'', ''-bob''] =
       Inr \<lparr>subcommand = Some ''list-devices'',
            arguments = [(''pan_user'', Str ''alice''), (''user_id'', Str ''-bob'')]\<rparr>
   \<and> (\<exists>m. parse_args [''list-devices'', ''alice''] =
            Inl ([Stdout (ErrorReport m)], ParseError))
   \<and> (\<exists>m. parse_args [''list-devices'', ''alice'', ''bob'', ''-x''] =
            Inl ([Stdout (ErrorReport m)], ParseError))"
proof -
  have t: "map_of PanctlParser ''list-devices'' = Some [''pan_user'', ''user_id'']"
    by (simp add: PanctlParser_table)
  have k: "parse_optional ''@alice:example.org'' = Positional"
    "parse_optional ''@bob:example.org'' = Positional"
    "parse_optional ''alice'' = Positional" "parse_optional ''bob'' = Positional"
    "parse_optional ''-'' = Positional" "parse_optional ''-1'' = Positional"
    "parse_optional ''-x'' = Optional NoAction"
    by (simp_all add: parse_optional_def option_strings_def split_eq_def get_option_tuples_def
        negative_number_def negative_number_core_def is_digit_def)
  have 1: "parse_args [''list-devices'', ''@alice:example.org'', ''@bob:example.org''] =
       Inr \<lparr>subcommand = Some ''list-devices'',
            arguments = [(''pan_user'', Str ''@alice:example.org''),
                         (''user_id'', Str ''@bob:example.org'')]\<rparr>"
    using parse_args_arity [OF t, of "[''@alice:example.org'', ''@bob:example.org'']"] k
    by simp
  have 2: "parse_args [''list-devices'', ''-'', ''-1''] =
       Inr \<lparr>subcommand = Some ''list-devices'',
            arguments = [(''pan_user'', Str ''-''), (''user_id'', Str ''-1'')]\<rparr>"
    using parse_args_arity [OF t, of "[''-'', ''-1'']"] k by simp
  have 3: "parse_args [''list-devices'', ''alice'', ''--'', ''-bob''] =
       Inr \<lparr>subcommand = Some ''list-devices'',
            arguments = [(''pan_user'', Str ''alice''), (''user_id'', Str ''-bob'')]\<rparr>"
    using parse_args_arity [OF t, of "[''alice'', ''--'', ''-bob'']" "[''alice'']" "[''-bob'']"] k
    by simp
  have 4: "\<exists>m. parse_args [''list-devices'', ''alice''] =
      Inl ([Stdout (ErrorReport m)], ParseError)"
    using parse_args_arity [OF t, of "[''alice'']"] k by simp
  have 5: "\<exists>m. parse_args [''list-devices'', ''alice'', ''bob'', ''-x''] =
      Inl ([Stdout (ErrorReport m)], ParseError)"
    using parse_args_arity [OF t, of "[''alice'', ''bob'', ''-x'']"] k by simp
  from t 1 2 3 4 5 show ?thesis by blast
qed

subsection \<open>Key partitioning\<close>

lemma grouper_Nil: "grouper [] n fillvalue = []"
  by (simp add: grouper.simps)

lemma grouper_step:
  "xs \<noteq> [] \<Longrightarrow> 0 < n \<Longrightarrow>
   grouper xs n f = (take n xs @ replicate (n - length xs) f) # grouper (drop n xs) n f"
  by (subst grouper.simps) simp

lemma grouper_length: "g \<in> set (grouper xs n f) \<Longrightarrow> length g = n"
proof (induction xs n f rule: grouper.induct)
  case (1 xs n f)
  show ?case
  proof (cases "xs = [] \<or> n = 0")
    case True
    with 1(2) show ?thesis by (simp add: grouper.simps)
  next
    case False
    with 1 show ?thesis by (auto simp: grouper_step)
  qed
qed

lemma ceil_div_one: "0 < m \<Longrightarrow> m \<le> n \<Longrightarrow> (m + n - 1) div n = (1::nat)"
proof -
  assume "0 < m" "m \<le> n"
  then have "n * 1 \<le> m + n - 1" "m + n - 1 < n * Suc 1" by simp_all
  then show ?thesis by (rule div_nat_eqI)
qed

lemma grouper_count: "0 < n \<Longrightarrow> length (grouper xs n f) = (length xs + n - 1) div n"
proof (induction xs n f rule: grouper.induct)
  case (1 xs n f)
  show ?case
  proof (cases "xs = []")
    case True
    then show ?thesis using 1(2) by (simp add: grouper_Nil)
  next
    case False
    have ih: "length (grouper (drop n xs) n f) = (length xs - n + n - 1) div n"
      using 1 False by simp
    show ?thesis
    proof (cases "length xs \<le> n")
      case True
      from False have pos: "0 < length xs" by simp
      have "(length xs + n - 1) div n = 1"
        using pos True by (rule ceil_div_one)
      with True False 1(2) ih show ?thesis by (simp add: grouper_step)
    next
      case g: False
      then have "length xs + n - 1 = (length xs - n + n - 1) + n" by simp
      then have "(length xs + n - 1) div n = Suc ((length xs - n + n - 1) div n)"
        using 1(2) by (metis div_add_self2 less_numeral_extra(3) Suc_eq_plus1 add.commute)
      with False 1(2) ih show ?thesis by (simp add: grouper_step)
    qed
  qed
qed

lemma grouper_concat:
  "0 < n \<Longrightarrow> concat (grouper xs n f) = xs @ replicate ((n - length xs mod n) mod n) f"
proof (induction xs n f rule: grouper.induct)
  case (1 xs n f)
  show ?case
  proof (cases "xs = []")
    case True
    then show ?thesis using 1(2) by (simp add: grouper_Nil)
  next
    case False
    show ?thesis
    proof (cases "length xs \<le> n")
      case True
      then have d: "drop n xs = []" by simp
      have "(n - length xs mod n) mod n = n - length xs"
      proof (cases "length xs = n")
        case True
        then show ?thesis by simp
      next
        case False
        with True have "length xs < n" by simp
        with \<open>xs \<noteq> []\<close> show ?thesis by simp
      qed
      with True False 1(2) show ?thesis by (simp add: grouper_step d grouper_Nil)
    next
      case g: False
      then have m: "length (drop n xs) mod n = length xs mod n"
        by (simp add: le_mod_geq)
      have "concat (grouper (drop n xs) n f) =
          drop n xs @ replicate ((n - length xs mod n) mod n) f"
        using 1 False m by simp
      with g False 1(2) show ?thesis by (simp add: grouper_step)
    qed
  qed
qed

lemma str_join_length:
  "gs \<noteq> [] \<Longrightarrow> \<forall>g\<in>set gs. length g = n \<Longrightarrow>
   length (str_join sep gs) + length sep = length gs * (n + length sep)"
  by (induction sep gs rule: str_join.induct) auto

lemma partition_key_length:
  assumes "key \<noteq> []"
  shows "length (partition_key key) = 5 * ((length key + 3) div 4) - 1"
proof -
  let ?gs = "grouper key 4 CHR '' ''"
  have c: "length ?gs = (length key + 3) div 4"
    using grouper_count [of 4 key] by simp
  with assms have ne: "?gs \<noteq> []" by (cases key) auto
  have "length (str_join '' '' ?gs) + length '' '' = length ?gs * (4 + length '' '')"
    by (rule str_join_length [OF ne]) (simp add: grouper_length)
  then show ?thesis by (simp add: partition_key_def c)
qed

text \<open>
  Claim C7, as stated, fails on the empty fingerprint: no group is produced, the result is
  the empty string, and 0 is not a multiple of 5 minus 1.
\<close>

theorem partition_key_empty_counterexample:
  "partition_key '''' = '''' \<and> \<not> 5 dvd length (partition_key '''') + 1"
  by (simp add: partition_key_def grouper_Nil)

text \<open>
  Claim C7, amended. The key is cut into groups of exactly 4 characters, the last one
  filled up with spaces, and the groups are joined by single spaces. For every non-empty
  key the length of the result is a multiple of 5 minus 1, namely 5 times the number of
  groups minus 1; the empty key gives the empty string. The two examples of the
  specification hold.
\<close>

theorem partition_key_groups:
  "(\<forall>g\<in>set (grouper key 4 CHR '' ''). length g = 4)
   \<and> length (grouper key 4 CHR '' '') = (length key + 3) div 4
   \<and> concat (grouper key 4 CHR '' '') =
       key @ replicate ((4 - length key mod 4) mod 4) CHR '' ''
   \<and> (key \<noteq> [] \<longrightarrow>
        length (partition_key key) = 5 * length (grouper key 4 CHR '' '') - 1
        \<and> 5 dvd length (partition_key key) + 1)
   \<and> (key = [] \<longrightarrow> partition_key key = [])
   \<and> partition_key ''abcdefgh'' = ''abcd efgh''
   \<and> partition_key ''abcdefg'' = ''abcd efg ''"
proof -
  have c: "length (grouper key 4 CHR '' '') = (length key + 3) div 4"
    using grouper_count [of 4 key] by simp
  have l: "length (partition_key key) = 5 * length (grouper key 4 CHR '' '') - 1"
    if "key \<noteq> []"
    using partition_key_length [OF that] c by simp
  have pos: "0 < (length key + 3) div 4" if "key \<noteq> []"
    using that by (cases key) auto
  have d: "5 dvd length (partition_key key) + 1" if "key \<noteq> []"
    using l [OF that] pos [OF that] c by simp
  have e1: "partition_key ''abcdefgh'' = ''abcd efgh''"
    by (simp add: partition_key_def grouper.simps)
  have e2: "partition_key ''abcdefg'' = ''abcd efg ''"
    by (simp add: partition_key_def grouper.simps)
  have g: "\<forall>g\<in>set (grouper key 4 CHR '' ''). length g = 4"
    by (simp add: grouper_length)
  have k: "concat (grouper key 4 CHR '' '') =
      key @ replicate ((4 - length key mod 4) mod 4) CHR '' ''"
    using grouper_concat [of 4 key] by simp
  have n: "key = [] \<longrightarrow> partition_key key = []"
    by (simp add: partition_key_def grouper_Nil)
  from g c k l d n e1 e2 show ?thesis by blast
qed

theorem partition_key_groups_witness:
  "''0123456789abcdefghi'' \<noteq> []
   \<and> length (grouper ''0123456789abcdefghi'' 4 CHR '' '') = 5
   \<and> concat (grouper ''0123456789abcdefghi'' 4 CHR '' '') = ''0123456789abcdefghi ''
   \<and> length (partition_key ''0123456789abcdefghi'') = 24
   \<and> partition_key '''' = ''''"
  using partition_key_groups [of "''0123456789abcdefghi''"] partition_key_groups [of "''''"]
  by simp

subsection \<open>Colours\<close>

lemma djb2_mask: "djb2 s = fold (\<lambda>x hash. 33 * hash + ord x) s 5381 mod 2 ^ 32"
proof -
  have m: "(0xFFFFFFFF :: int) = mask 32"
    by (simp add: mask_eq_exp_minus_1)
  have f: "(\<lambda>x hash. (push_bit 5 hash + hash) + ord x) = (\<lambda>x (hash::int). 33 * hash + ord x)"
    by (simp add: push_bit_eq_mult fun_eq_iff)
  show ?thesis
    unfolding djb2_def f m by (simp only: flip: take_bit_eq_mask take_bit_eq_mod)
qed

lemma get_color_index: "nat (djb2 s mod 5) < 5"
proof -
  have "0 \<le> djb2 s mod 5" "djb2 s mod 5 < 5" by simp_all
  then show ?thesis by simp
qed

text \<open>
  Claim C2. The hash is the djb2 hash masked to 32 bits and the result is always an entry
  of the palette, but the palette of 6 colours is indexed with the hash modulo 5: the
  device id \<open>D\<close> is shown in the second colour where the hash modulo 6 selects the sixth,
  and the sixth colour is never returned.
\<close>

theorem get_color_modulo_five:
  "djb2 string = fold (\<lambda>x hash. 33 * hash + ord x) string 5381 mod 2 ^ 32
   \<and> get_color string \<in> set (take 5 colors)
   \<and> get_color string \<noteq> ''ansimagenta''
   \<and> colors ! 5 = ''ansimagenta''
   \<and> get_color ''D'' = ''ansigreen''
   \<and> colors ! nat (djb2 ''D'' mod 6) = ''ansimagenta''"
proof -
  consider "nat (djb2 string mod 5) = 0" | "nat (djb2 string mod 5) = 1"
    | "nat (djb2 string mod 5) = 2" | "nat (djb2 string mod 5) = 3"
    | "nat (djb2 string mod 5) = 4"
    using get_color_index [of string] by linarith
  then have a: "get_color string \<in> set (take 5 colors) \<and> get_color string \<noteq> ''ansimagenta''"
    by cases (simp_all add: get_color_def colors_def)
  have b: "get_color ''D'' = ''ansigreen''"
    by (simp add: get_color_def djb2_mask ord_def colors_def)
  have c: "colors ! nat (djb2 ''D'' mod 6) = ''ansimagenta''"
    by (simp add: djb2_mask ord_def colors_def)
  have d: "colors ! 5 = ''ansimagenta''"
    by (simp add: colors_def)
  from a b c d djb2_mask [of string] show ?thesis by blast
qed

subsection \<open>Completion\<close>

lemma split_by_ne: "split_by sep s \<noteq> []"
  by (induction s) (auto split: list.splits)

lemma split_by_none: "\<forall>c\<in>set s. \<not> sep c \<Longrightarrow> split_by sep s = [s]"
  by (induction s) auto

lemma split_by_append:
  "\<forall>c\<in>set v. \<not> sep c \<Longrightarrow> sep x \<Longrightarrow> split_by sep (v @ x # r) = v # split_by sep r"
  by (induction v) auto

lemma split_by_length_one: "length (split_by sep s) = 1 \<longleftrightarrow> (\<forall>c\<in>set s. \<not> sep c)"
proof (induction s)
  case Nil
  then show ?case by simp
next
  case (Cons c s)
  show ?case
  proof (cases "sep c")
    case True
    then show ?thesis using split_by_ne [of sep s] by auto
  next
    case False
    then show ?thesis using Cons split_by_ne [of sep s]
      by (auto split: list.splits)
  qed
qed

lemma split_on_space_single: "CHR '' '' \<notin> set s \<Longrightarrow> split_on_space s = [s]"
  unfolding split_on_space_def by (rule split_by_none) auto

lemma single_word_iff: "length (split_on_space s) = 1 \<longleftrightarrow> CHR '' '' \<notin> set s"
  unfolding split_on_space_def split_by_length_one by auto

lemma split_on_space_verb:
  "CHR '' '' \<notin> set v \<Longrightarrow> split_on_space (v @ '' '' @ r) = v # split_on_space r"
  unfolding split_on_space_def using split_by_append [of v "\<lambda>c. c = CHR '' ''" "CHR '' ''" r]
  by auto

lemma starts_with_prefix: "starts_with a b \<longleftrightarrow> prefix a b"
  by (induction a b rule: starts_with.induct) auto

lemma str_in_sublist: "str_in a b \<longleftrightarrow> sublist a b"
proof (induction b)
  case Nil
  then show ?case by simp
next
  case (Cons y b)
  then show ?case
    by (cases a) (simp_all add: starts_with_prefix sublist_Cons_right)
qed

lemma str_in_iff: "str_in a b \<longleftrightarrow> (\<exists>p s. b = p @ a @ s)"
  by (simp add: str_in_sublist sublist_def)

text \<open>
  Claim C6. When the text before the cursor has no space, so that it is a single word, the
  candidates are the command names given to the completer, in their order, filtered by
  whether the word occurs anywhere inside the name (not only at its start, and with exact
  character comparison); every candidate replaces the whole word: its start position is
  minus the length of the word. The completer of the shell is given \<open>PanCtl.commands\<close>.
\<close>

theorem complete_commands_single_word:
  assumes "CHR '' '' \<notin> set text_before_cursor"
  shows "get_completions self text_before_cursor =
           Inr (map (\<lambda>word. Completion word (- int (length text_before_cursor)))
                  (filter (str_in text_before_cursor) (commands_of self)))
       \<and> commands_of (completer d paths) = commands
       \<and> (\<forall>a b. str_in a b \<longleftrightarrow> (\<exists>p s. b = p @ a @ s))"
proof -
  have "get_completions self text_before_cursor =
      Inr (map (\<lambda>word. Completion word (- int (length text_before_cursor)))
             (filter (str_in text_before_cursor) (commands_of self)))"
    using assms
    by (simp add: get_completions_def split_on_space_single complete_commands_def
        completions_for_def filter_words_def)
  moreover have "commands_of (completer d paths) = commands"
    by (simp add: completer_def)
  ultimately show ?thesis
    using str_in_iff by blast
qed

theorem complete_commands_single_word_witness:
  "CHR '' '' \<notin> set ''ver''
   \<and> get_completions sample_completer ''ver'' =
       Inr [Completion ''verify-device'' (- 3), Completion ''unverify-device'' (- 3),
            Completion ''start-verification'' (- 3), Completion ''accept-verification'' (- 3),
            Completion ''confirm-verification'' (- 3)]"
  using complete_commands_single_word [of "''ver''" sample_completer]
  by (simp add: sample_completer_def completer_def commands_def)

lemma complete_pan_users_Inr:
  "ctl_list_users (daemon_of self) = Inr users \<Longrightarrow>
   complete_pan_users self lw = Inr (completions_for (filter (str_in lw) (map fst users)) lw)"
  by (simp add: complete_pan_users_def filter_words_def)

lemma complete_devices_Inr:
  "devices_list_user_devices (daemon_of self) (Str pu) (Str ui) = Inr devs \<Longrightarrow>
   complete_devices self lw pu ui =
     Inr (completions_for (filter (str_in lw) (map device_id devs)) lw)"
  by (simp add: complete_devices_def filter_words_def)

lemma completions_for_inj: "inj (\<lambda>w. Completion w n)"
  by (simp add: inj_def)

lemma complete_users_Inr:
  assumes "devices_list (daemon_of self) (Str pu) = Inr devs"
  shows "\<exists>cs. complete_users self lw pu = Inr cs \<and> distinct cs
     \<and> set cs = (\<lambda>u. Completion u (- int (length lw))) `
                  {u \<in> user_id ` set devs. str_in lw u}"
proof -
  let ?cs = "completions_for (filter (str_in lw) (remdups (map user_id devs))) lw"
  have 1: "complete_users self lw pu = Inr ?cs"
    using assms by (simp add: complete_users_def filter_words_def)
  have 2: "distinct ?cs"
    unfolding completions_for_def by (simp add: distinct_map inj_on_def)
  have 3: "set ?cs = (\<lambda>u. Completion u (- int (length lw))) `
                  {u \<in> user_id ` set devs. str_in lw u}"
    unfolding completions_for_def by auto
  from 1 2 3 show ?thesis by blast
qed

lemma get_completions_verification:
  assumes "words = split_on_space text_before_cursor"
    and "hd words \<in> set verification_commands"
  shows "get_completions self text_before_cursor =
     (if length words = 1 then Inr (complete_commands self (last words))
      else complete_verification self (hd words) (last words) words)"
proof -
  have "words \<noteq> []" using assms(1) by (simp add: split_on_space_def split_by_ne)
  then have "length words = 1 \<or> length words > 1"
    by (cases words) auto
  then show ?thesis
    using assms by (auto simp: get_completions_def Let_def)
qed

text \<open>
  Claim C5. For a line whose first word is one of the verification verbs, the word under
  the cursor decides the candidates: the second word completes against the pan users the
  daemon lists, the third against the user ids owning a device known to the pan user typed
  as second word, the fourth against the device ids of the pan user and user id typed as
  second and third word, and any later word has no candidates. Each list is filtered by
  containment of the word under the cursor.
\<close>

theorem verification_completion_by_index:
  assumes "words = split_on_space text_before_cursor"
    and "hd words \<in> set verification_commands"
  shows "(length words = 2 \<longrightarrow>
            get_completions self text_before_cursor = complete_pan_users self (last words))
       \<and> (length words = 3 \<longrightarrow>
            get_completions self text_before_cursor =
              complete_users self (last words) (words ! 1))
       \<and> (length words = 4 \<longrightarrow>
            get_completions self text_before_cursor =
              complete_devices self (last words) (words ! 1) (words ! 2))
       \<and> (4 < length words \<longrightarrow> get_completions self text_before_cursor = Inr [])
       \<and> (\<forall>users. ctl_list_users (daemon_of self) = Inr users \<longrightarrow>
            complete_pan_users self last_word =
              Inr (completions_for (filter (str_in last_word) (map fst users)) last_word))
       \<and> (\<forall>devs. devices_list (daemon_of self) (Str pan_user) = Inr devs \<longrightarrow>
            (\<exists>cs. complete_users self last_word pan_user = Inr cs \<and> distinct cs
               \<and> set cs = (\<lambda>u. Completion u (- int (length last_word))) `
                            {u \<in> user_id ` set devs. str_in last_word u}))
       \<and> (\<forall>devs. devices_list_user_devices (daemon_of self) (Str pan_user) (Str uid) = Inr devs
            \<longrightarrow> complete_devices self last_word pan_user uid =
              Inr (completions_for (filter (str_in last_word) (map device_id devs)) last_word))"
proof -
  note g = get_completions_verification [OF assms, of self]
  have 1: "length words = 2 \<longrightarrow>
      get_completions self text_before_cursor = complete_pan_users self (last words)"
    using g by (simp add: complete_verification_def)
  have 2: "length words = 3 \<longrightarrow>
      get_completions self text_before_cursor = complete_users self (last words) (words ! 1)"
    using g by (simp add: complete_verification_def)
  have 3: "length words = 4 \<longrightarrow>
      get_completions self text_before_cursor =
        complete_devices self (last words) (words ! 1) (words ! 2)"
    using g by (simp add: complete_verification_def)
  have 4: "4 < length words \<longrightarrow> get_completions self text_before_cursor = Inr []"
    using g by (simp add: complete_verification_def)
  from 1 2 3 4 complete_pan_users_Inr [of self _ last_word]
    complete_users_Inr [of self pan_user _ last_word]
    complete_devices_Inr [of self pan_user uid _ last_word]
  show ?thesis by blast
qed


theorem verification_completion_by_index_witness:
  "get_completions sample_completer ''verify-device al'' =
     Inr [Completion ''@alice:example.org'' (- 2)]
   \<and> get_completions sample_completer ''verify-device @alice:example.org car'' =
     Inr [Completion ''@carol:example.org'' (- 3)]
   \<and> get_completions sample_completer
        ''verify-device @alice:example.org @carol:example.org DEV'' =
     Inr [Completion ''ALPHADEV'' (- 3), Completion ''BETADEV'' (- 3)]
   \<and> get_completions sample_completer
        ''verify-device @alice:example.org @carol:example.org ALPHADEV '' = Inr []"
proof -
  have h: "hd (''verify-device'' # ws) \<in> set verification_commands" for ws
    by (simp add: verification_commands_def)
  have w2: "[''verify-device'', ''al''] = split_on_space ''verify-device al''"
    by (simp add: split_on_space_def)
  have w3: "[''verify-device'', ''@alice:example.org'', ''car''] =
      split_on_space ''verify-device @alice:example.org car''"
    by (simp add: split_on_space_def)
  have w4: "[''verify-device'', ''@alice:example.org'', ''@carol:example.org'', ''DEV''] =
      split_on_space ''verify-device @alice:example.org @carol:example.org DEV''"
    by (simp add: split_on_space_def)
  have w5: "[''verify-device'', ''@alice:example.org'', ''@carol:example.org'', ''ALPHADEV'', []] =
      split_on_space ''verify-device @alice:example.org @carol:example.org ALPHADEV ''"
    by (simp add: split_on_space_def)
  have d: "daemon_of sample_completer = sample_daemon"
    by (simp add: sample_completer_def completer_def)
  have "get_completions sample_completer ''verify-device al'' =
      complete_pan_users sample_completer ''al''"
    using verification_completion_by_index [OF w2 h, of sample_completer] by simp
  then have 1: "get_completions sample_completer ''verify-device al'' =
      Inr [Completion ''@alice:example.org'' (- 2)]"
    by (simp add: complete_pan_users_def d sample_daemon_def filter_words_def
        completions_for_def)
  have "get_completions sample_completer ''verify-device @alice:example.org car'' =
      complete_users sample_completer ''car'' ''@alice:example.org''"
    using verification_completion_by_index [OF w3 h, of sample_completer] by simp
  then have 2: "get_completions sample_completer ''verify-device @alice:example.org car'' =
      Inr [Completion ''@carol:example.org'' (- 3)]"
    by (simp add: complete_users_def d sample_daemon_def sample_devices_def filter_words_def
        completions_for_def)
  have "get_completions sample_completer
      ''verify-device @alice:example.org @carol:example.org DEV'' =
      complete_devices sample_completer ''DEV'' ''@alice:example.org'' ''@carol:example.org''"
    using verification_completion_by_index [OF w4 h, of sample_completer] by simp
  then have 3: "get_completions sample_completer
      ''verify-device @alice:example.org @carol:example.org DEV'' =
      Inr [Completion ''ALPHADEV'' (- 3), Completion ''BETADEV'' (- 3)]"
    by (simp add: complete_devices_def d sample_daemon_def sample_devices_def filter_words_def
        completions_for_def)
  have 4: "get_completions sample_completer
      ''verify-device @alice:example.org @carol:example.org ALPHADEV '' = Inr []"
    using verification_completion_by_index [OF w5 h, of sample_completer] by simp
  from 1 2 3 4 show ?thesis by blast
qed

lemma complete_verification_words:
  "complete_verification self c last_word (c # ws) =
   complete_verification self c' last_word (c' # ws)"
  by (simp add: complete_verification_def)

lemma verification_commands_no_space:
  "v \<in> set verification_commands \<Longrightarrow> CHR '' '' \<notin> set v"
  by (auto simp: verification_commands_def)

lemma get_completions_verb:
  assumes "v \<in> set verification_commands"
  shows "get_completions self (v @ '' '' @ rest) =
     complete_verification self v (last (split_on_space rest)) (v # split_on_space rest)"
proof -
  have w: "v # split_on_space rest = split_on_space (v @ '' '' @ rest)"
    using split_on_space_verb [OF verification_commands_no_space [OF assms]] by simp
  have ne: "split_on_space rest \<noteq> []"
    by (simp add: split_on_space_def split_by_ne)
  have h: "hd (v # split_on_space rest) \<in> set verification_commands"
    using assms by simp
  show ?thesis
    using get_completions_verification [OF w h, of self] ne by simp
qed

text \<open>
  Claim C10. After the first word \<open>cancel-verification\<close> the completer completes the
  arguments exactly as after any other verification verb: the second word against the pan
  users the daemon lists, the third against the user ids owning a device known to the pan
  user typed before it, the fourth against the device ids of the pan user and user id
  typed before it, each filtered by containment of the word under the cursor, and nothing
  for a later word. Yet the name is not among the command names the completer offers for
  the first word, and the parser refuses it as an invalid choice, whatever follows.
\<close>

theorem cancel_verification_completed_not_parsed:
  "(\<forall>verb\<in>set verification_commands.
      get_completions self (''cancel-verification'' @ '' '' @ rest) =
      get_completions self (verb @ '' '' @ rest))
   \<and> get_completions self (''cancel-verification'' @ '' '' @ rest) =
       complete_verification self ''cancel-verification'' (last (split_on_space rest))
         (''cancel-verification'' # split_on_space rest)
   \<and> (split_on_space rest = [last_word]
        \<and> ctl_list_users (daemon_of self) = Inr users \<longrightarrow>
        get_completions self (''cancel-verification'' @ '' '' @ rest) =
          Inr (map (\<lambda>u. Completion u (- int (length last_word)))
                 (filter (str_in last_word) (map fst users))))
   \<and> (split_on_space rest = [pan_user, last_word]
        \<and> devices_list (daemon_of self) (Str pan_user) = Inr devs \<longrightarrow>
        (\<exists>cs. get_completions self (''cancel-verification'' @ '' '' @ rest) = Inr cs
           \<and> distinct cs
           \<and> set cs = (\<lambda>u. Completion u (- int (length last_word))) `
                        {u \<in> user_id ` set devs. str_in last_word u}))
   \<and> (split_on_space rest = [pan_user, uid, last_word]
        \<and> devices_list_user_devices (daemon_of self) (Str pan_user) (Str uid) = Inr devs \<longrightarrow>
        get_completions self (''cancel-verification'' @ '' '' @ rest) =
          Inr (map (\<lambda>i. Completion i (- int (length last_word)))
                 (filter (str_in last_word) (map device_id devs))))
   \<and> (3 < length (split_on_space rest) \<longrightarrow>
        get_completions self (''cancel-verification'' @ '' '' @ rest) = Inr [])
   \<and> ''cancel-verification'' \<notin> set commands
   \<and> (\<forall>cs. CHR '' '' \<notin> set text_before_cursor
          \<and> get_completions (completer d paths) text_before_cursor = Inr cs
        \<longrightarrow> ''cancel-verification'' \<notin> completion_text ` set cs)
   \<and> parse_args (''cancel-verification'' # arg_strings) =
       Inl ([Stdout (ErrorReport (InvalidChoice ''cancel-verification''
              [''list-users'', ''list-devices'', ''start-verification'',
               ''accept-verification'', ''confirm-verification'', ''verify-device'',
               ''import-keys'', ''export-keys'']))],
            ParseError)"
proof -
  have c: "''cancel-verification'' \<in> set verification_commands"
    by (simp add: verification_commands_def)
  note g = get_completions_verb [OF c, of self rest]
  have 1: "\<forall>verb\<in>set verification_commands.
      get_completions self (''cancel-verification'' @ '' '' @ rest) =
      get_completions self (verb @ '' '' @ rest)"
    using g get_completions_verb [of _ self rest]
      complete_verification_words [of self "''cancel-verification''"]
    by metis
  have 3: "''cancel-verification'' \<notin> set commands"
    by (simp add: commands_def)
  have 4: "''cancel-verification'' \<notin> completion_text ` set cs"
    if "CHR '' '' \<notin> set text_before_cursor"
      and "get_completions (completer d paths) text_before_cursor = Inr cs" for cs
  proof -
    have "cs = completions_for (filter_words commands text_before_cursor) text_before_cursor"
      using that
      by (simp add: get_completions_def split_on_space_single complete_commands_def
          completer_def)
    then have "completion_text ` set cs \<subseteq> set commands"
      by (auto simp: completions_for_def filter_words_def)
    with 3 show ?thesis by blast
  qed
  have "map_of PanctlParser ''cancel-verification'' = None"
    by (simp add: PanctlParser_table)
  then have "parse_args_of PanctlParser (''cancel-verification'' # arg_strings) =
      error (InvalidChoice ''cancel-verification'' (map fst PanctlParser))"
    by (intro invalid_choice) simp_all
  then have 5: "parse_args (''cancel-verification'' # arg_strings) =
       Inl ([Stdout (ErrorReport (InvalidChoice ''cancel-verification''
              [''list-users'', ''list-devices'', ''start-verification'',
               ''accept-verification'', ''confirm-verification'', ''verify-device'',
               ''import-keys'', ''export-keys'']))],
            ParseError)"
    by (simp add: parse_args_def error_def PanctlParser_table)
  have 6: "get_completions self (''cancel-verification'' @ '' '' @ rest) =
      Inr (map (\<lambda>u. Completion u (- int (length last_word)))
             (filter (str_in last_word) (map fst users)))"
    if "split_on_space rest = [last_word]" "ctl_list_users (daemon_of self) = Inr users"
    using g that complete_pan_users_Inr [OF that(2), of last_word]
    by (simp add: complete_verification_def completions_for_def)
  have 7: "\<exists>cs. get_completions self (''cancel-verification'' @ '' '' @ rest) = Inr cs
      \<and> distinct cs
      \<and> set cs = (\<lambda>u. Completion u (- int (length last_word))) `
                   {u \<in> user_id ` set devs. str_in last_word u}"
    if "split_on_space rest = [pan_user, last_word]"
      "devices_list (daemon_of self) (Str pan_user) = Inr devs"
    using g that(1) complete_users_Inr [OF that(2), of last_word]
    by (simp add: complete_verification_def)
  have 8: "get_completions self (''cancel-verification'' @ '' '' @ rest) =
      Inr (map (\<lambda>i. Completion i (- int (length last_word)))
             (filter (str_in last_word) (map device_id devs)))"
    if "split_on_space rest = [pan_user, uid, last_word]"
      "devices_list_user_devices (daemon_of self) (Str pan_user) (Str uid) = Inr devs"
    using g that(1) complete_devices_Inr [OF that(2), of last_word]
    by (simp add: complete_verification_def completions_for_def)
  have 9: "get_completions self (''cancel-verification'' @ '' '' @ rest) = Inr []"
    if "3 < length (split_on_space rest)"
    using g that by (simp add: complete_verification_def)
  from 1 g 3 4 5 6 7 8 9 show ?thesis by blast
qed

theorem cancel_verification_completed_not_parsed_witness:
  "get_completions sample_completer ''cancel-verification al'' =
     Inr [Completion ''@alice:example.org'' (- 2)]
   \<and> get_completions sample_completer ''cancel-verification @alice:example.org dave'' =
     Inr [Completion ''@dave:example.org'' (- 4)]
   \<and> get_completions sample_completer
        ''cancel-verification @alice:example.org @carol:example.org A'' =
     Inr [Completion ''ALPHADEV'' (- 1), Completion ''BETADEV'' (- 1)]
   \<and> get_completions sample_completer
        ''cancel-verification @alice:example.org @carol:example.org ALPHADEV '' = Inr []
   \<and> get_completions sample_completer
        ''cancel-verification @alice:example.org @carol:example.org A'' =
     get_completions sample_completer ''verify-device @alice:example.org @carol:example.org A''
   \<and> get_completions sample_completer ''cancel'' = Inr []"
proof -
  have d: "daemon_of sample_completer = sample_daemon"
    by (simp add: sample_completer_def completer_def)
  have u: "ctl_list_users (daemon_of sample_completer) =
      Inr [(''@alice:example.org'', ''PANDEVA''), (''@bob:example.org'', ''PANDEVB'')]"
    by (simp add: d sample_daemon_def)
  have l: "devices_list (daemon_of sample_completer) (Str ''@alice:example.org'') =
      Inr sample_devices"
    by (simp add: d sample_daemon_def)
  have ld: "devices_list_user_devices (daemon_of sample_completer)
      (Str ''@alice:example.org'') (Str ''@carol:example.org'') = Inr (take 2 sample_devices)"
    by (simp add: d sample_daemon_def sample_devices_def)
  have s2: "split_on_space ''al'' = [''al'']"
    and s3: "split_on_space ''@alice:example.org dave'' = [''@alice:example.org'', ''dave'']"
    and s4: "split_on_space ''@alice:example.org @carol:example.org A'' =
      [''@alice:example.org'', ''@carol:example.org'', ''A'']"
    and s5: "split_on_space ''@alice:example.org @carol:example.org ALPHADEV '' =
      [''@alice:example.org'', ''@carol:example.org'', ''ALPHADEV'', []]"
    by (simp_all add: split_on_space_def)
  note t2 = cancel_verification_completed_not_parsed
      [where self = sample_completer and rest = "''al''" and last_word = "''al''"
        and users = "[(''@alice:example.org'', ''PANDEVA''), (''@bob:example.org'', ''PANDEVB'')]",
        THEN conjunct2, THEN conjunct2, THEN conjunct1, THEN mp, OF conjI, OF s2 u]
  have 1: "get_completions sample_completer ''cancel-verification al'' =
      Inr [Completion ''@alice:example.org'' (- 2)]"
    using t2 by simp
  note t3 = cancel_verification_completed_not_parsed
      [where self = sample_completer and rest = "''@alice:example.org dave''"
        and pan_user = "''@alice:example.org''" and last_word = "''dave''"
        and devs = sample_devices,
        THEN conjunct2, THEN conjunct2, THEN conjunct2, THEN conjunct1, THEN mp, OF conjI,
        OF s3 l]
  from t3 obtain cs where cs: "get_completions sample_completer
        (''cancel-verification'' @ '' '' @ ''@alice:example.org dave'') = Inr cs"
      "distinct cs"
      "set cs = (\<lambda>u. Completion u (- int (length ''dave''))) `
         {u \<in> user_id ` set sample_devices. str_in ''dave'' u}"
    by (elim exE conjE)
  have "{u \<in> user_id ` set sample_devices. str_in ''dave'' u} = {''@dave:example.org''}"
    by (auto simp: sample_devices_def)
  with cs(3) have "set cs = {Completion ''@dave:example.org'' (- 4)}" by simp
  with cs(2) have "cs = [Completion ''@dave:example.org'' (- 4)]"
  proof -
    assume st: "set cs = {Completion ''@dave:example.org'' (- 4)}" and di: "distinct cs"
    from di have "length cs = card (set cs)" by (simp add: distinct_card)
    with st have "length cs = 1" by simp
    then obtain y where "cs = [y]" by (cases cs) auto
    with st show ?thesis by simp
  qed
  with cs(1) have 2: "get_completions sample_completer
      ''cancel-verification @alice:example.org dave'' =
      Inr [Completion ''@dave:example.org'' (- 4)]"
    by simp
  note t4 = cancel_verification_completed_not_parsed
      [where self = sample_completer and rest = "''@alice:example.org @carol:example.org A''"
        and pan_user = "''@alice:example.org''" and uid = "''@carol:example.org''"
        and last_word = "''A''" and devs = "take 2 sample_devices",
        THEN conjunct2, THEN conjunct2, THEN conjunct2, THEN conjunct2, THEN conjunct1,
        THEN mp, OF conjI, OF s4 ld]
  have 3: "get_completions sample_completer
      ''cancel-verification @alice:example.org @carol:example.org A'' =
      Inr [Completion ''ALPHADEV'' (- 1), Completion ''BETADEV'' (- 1)]"
    using t4 by (simp add: sample_devices_def)
  have n5: "3 < length (split_on_space ''@alice:example.org @carol:example.org ALPHADEV '')"
    by (simp add: s5)
  note t5 = cancel_verification_completed_not_parsed
      [where self = sample_completer
        and rest = "''@alice:example.org @carol:example.org ALPHADEV ''",
        THEN conjunct2, THEN conjunct2, THEN conjunct2, THEN conjunct2, THEN conjunct2,
        THEN conjunct1, THEN mp, OF n5]
  have 4: "get_completions sample_completer
      ''cancel-verification @alice:example.org @carol:example.org ALPHADEV '' = Inr []"
    using t5 by simp
  have v: "''verify-device'' \<in> set verification_commands"
    by (simp add: verification_commands_def)
  note t1 = cancel_verification_completed_not_parsed
      [where self = sample_completer and rest = "''@alice:example.org @carol:example.org A''",
        THEN conjunct1, THEN bspec, OF v]
  have 5: "get_completions sample_completer
      ''cancel-verification @alice:example.org @carol:example.org A'' =
      get_completions sample_completer ''verify-device @alice:example.org @carol:example.org A''"
    using t1 by simp
  have 6: "get_completions sample_completer ''cancel'' = Inr []"
    by (simp add: get_completions_def split_on_space_def complete_commands_def
        sample_completer_def completer_def commands_def filter_words_def completions_for_def)
  from 1 2 3 4 5 6 show ?thesis by (intro conjI)
qed

subsection \<open>The loop and the start of the program\<close>

lemma split_whitespace_dash_h: "split_whitespace ''-h'' = [''-h'']"
  by (simp add: split_whitespace_def is_space_def)

lemma parse_args_dash_h: "parse_args [''-h''] = Inl ([Stdout HelpText], SystemExit 0)"
  by (simp add: parse_args_def parse_args_of_def parse_optional_def option_strings_def
      consume_optional_def help_action_def)

text \<open>
  Claim C4. A line whose first word is not a command name should be answered with a parse
  error and the next prompt. The line \<open>-h\<close> is not a command name; the parser's built-in
  help option answers it by printing the help text and raising \<open>SystemExit\<close>, which the
  loop does not catch: the loop ends there, whatever the rest of the script, and the
  exception leaves \<open>main\<close>.
\<close>

theorem help_flag_ends_loop:
  "map_of PanctlParser ''-h'' = None
   \<and> loop d (Line ''-h'' # script) w =
       (emit [Stdout HelpText] (emit [Stdout Prompt] w), Raised (SystemExit 0))
   \<and> main (Some d) (Line ''-h'' # script) =
       (\<lparr>out = [Stdout Prompt, Stdout HelpText], calls = []\<rparr>, Raised (SystemExit 0))"
  by (simp add: PanctlParser_table split_whitespace_dash_h parse_args_dash_h main_def emit_def)

text \<open>
  For a first word that is neither a command name nor option-like the loop does what the
  claim says: the invalid choice is reported and the next prompt follows.
\<close>

lemma unknown_command_continues:
  assumes "split_whitespace result = name # args"
    and "hd name \<noteq> CHR ''-''" and "map_of PanctlParser name = None"
  shows "loop d (Line result # script) w =
     loop d script
       (emit [Stdout (ErrorReport (InvalidChoice name (map fst PanctlParser)))]
          (emit [Stdout Prompt] w))"
proof -
  from assms(1) have ne: "result \<noteq> []"
    by (auto simp: split_whitespace_def)
  have "parse_args (name # args) = error (InvalidChoice name (map fst PanctlParser))"
    unfolding parse_args_def using assms(2,3) by (rule invalid_choice)
  with ne assms(1) show ?thesis
    by (simp add: error_def)
qed

lemma parse_empty: "parse_args [] = Inr \<lparr>subcommand = None, arguments = []\<rparr>"
  by (simp add: parse_args_def parse_args_of_def)

text \<open>
  Claim C8. When a line parses into an invocation of \<open>accept-verification\<close>, dispatching
  it leaves the shell as it was: no call is sent to the daemon, nothing is printed, and
  the loop goes on with the rest of the script from the state it had when it showed the
  prompt for this line.
\<close>

theorem accept_verification_noop:
  assumes "parse_args (split_whitespace result) = Inr parsed_args"
    and "subcommand parsed_args = Some ''accept-verification''"
  shows "dispatch d parsed_args w = Inr w
       \<and> loop d (Line result # script) w = loop d script (emit [Stdout Prompt] w)"
proof -
  have d: "dispatch d parsed_args w = Inr w" for w
    using assms(2) by (simp add: dispatch_def)
  show ?thesis
    using assms(1) d by (simp add: Let_def)
qed

lemma sw: "split_whitespace ''accept-verification @alice:example.org @bob:example.org DEVICEID'' =
  [''accept-verification'', ''@alice:example.org'', ''@bob:example.org'', ''DEVICEID'']"
  by (simp add: split_whitespace_def is_space_def)

theorem accept_verification_noop_witness:
  "parse_args (split_whitespace ''accept-verification @alice:example.org @bob:example.org DEVICEID'') =
     Inr \<lparr>subcommand = Some ''accept-verification'',
          arguments = [(''pan_user'', Str ''@alice:example.org''),
                       (''user_id'', Str ''@bob:example.org''),
                       (''device_id'', Str ''DEVICEID'')]\<rparr>
   \<and> loop sample_daemon
        [Line ''accept-verification @alice:example.org @bob:example.org DEVICEID'']
        \<lparr>out = [], calls = []\<rparr> =
       (\<lparr>out = [Stdout Prompt, Stdout Prompt], calls = []\<rparr>, Waiting)"
proof -
  have p: "parse_args (split_whitespace ''accept-verification @alice:example.org @bob:example.org DEVICEID'') =
     Inr \<lparr>subcommand = Some ''accept-verification'',
          arguments = [(''pan_user'', Str ''@alice:example.org''),
                       (''user_id'', Str ''@bob:example.org''),
                       (''device_id'', Str ''DEVICEID'')]\<rparr>"
    unfolding sw
    using parse_args_plain [of "''accept-verification''" "[''@alice:example.org'', ''@bob:example.org'', ''DEVICEID'']" PanctlParser]
    by (simp add: parse_args_def PanctlParser_table)
  show ?thesis
    using accept_verification_noop [OF p, of sample_daemon "\<lparr>out = [], calls = []\<rparr>" "[]"] p
    by (simp add: emit_def)
qed

text \<open>
  Claim C9, as stated, fails in one point: the diagnostic is written with \<open>print\<close>, which
  goes to standard output; nothing is written to standard error.
\<close>

theorem startup_failure_stderr_counterexample:
  "out (fst (main None [])) = [Stdout (Plain ''Error, no pantalaimon bus found'')]
   \<and> filter on_stderr (out (fst (main None []))) = []"
  by (simp add: main_def emit_def)

text \<open>
  Claim C9, amended. If the daemon is not found on the bus at startup, the program prints
  the diagnostic on standard output, raises \<open>SystemExit\<close> with the non-zero status -1,
  shows no prompt and sends no call.
\<close>

theorem startup_failure:
  "main None script =
     (\<lparr>out = [Stdout (Plain ''Error, no pantalaimon bus found'')], calls = []\<rparr>,
      Raised (SystemExit (- 1)))
   \<and> (- 1 :: int) \<noteq> 0
   \<and> Stdout Prompt \<notin> set (out (fst (main None script)))
   \<and> calls (fst (main None script)) = []"
  by (simp add: main_def emit_def)

end
